theory Spec2Isabelle
  imports Main "HOL-Library.Char_ord" "HOL-Library.List_Lexorder" "HOL-Library.Code_Target_Nat"
begin

section \<open>JavaScript values\<close>

text \<open>
  The values that \<open>JSON.parse\<close> returns and \<open>JSON.stringify\<close> prints. A string is a
  list of characters; the characters of the model are 8-bit, so the development speaks
  about texts whose code units are below 256. A number is carried by the decimal text
  that \<open>JSON.stringify\<close> prints for it (\<open>JNum ''0''\<close> is zero, the only falsy number a
  parsed document can hold). The members of an object are listed in the order in which
  the language enumerates them (\<open>Object.keys\<close>, \<open>Object.entries\<close>, \<open>JSON.stringify\<close>).
\<close>

datatype json =
    JNull
  | JBool bool
  | JNum string
  | JStr string
  | JArr "json list"
  | JObj "(string \<times> json) list"

definition hexDigit :: "nat \<Rightarrow> char" where
  "hexDigit n = ''0123456789abcdef'' ! (n mod 16)"

fun showNat :: "nat \<Rightarrow> string" where
  "showNat n = (if n < 10 then [hexDigit n] else showNat (n div 10) @ [hexDigit (n mod 10)])"

declare showNat.simps [simp del]

definition isDigit :: "char \<Rightarrow> bool" where
  "isDigit c = (c \<in> set ''0123456789'')"

definition decimalValue :: "string \<Rightarrow> nat" where
  "decimalValue s = foldl (\<lambda>n c. 10 * n + (of_char c - 48)) 0 s"

text \<open>
  A property key is an array index when it is the canonical decimal text of an integer
  below \<open>2^32 - 1\<close>. An ordinary object enumerates its array-index keys first, in
  ascending numeric order, and its other string keys after them in the order in which
  they were created.
\<close>

definition arrayIndex :: "string \<Rightarrow> nat option" where
  "arrayIndex k =
     (if k \<noteq> [] \<and> list_all isDigit k \<and> showNat (decimalValue k) = k
         \<and> decimalValue k < 4294967295
      then Some (decimalValue k) else None)"

fun insertIndexed :: "nat \<Rightarrow> string \<Rightarrow> 'v \<Rightarrow> (string \<times> 'v) list \<Rightarrow> (string \<times> 'v) list" where
  "insertIndexed n k v [] = [(k, v)]"
| "insertIndexed n k v (p # ps) =
     (case arrayIndex (fst p) of
        Some m \<Rightarrow> if m < n then p # insertIndexed n k v ps else (k, v) # p # ps
      | None \<Rightarrow> (k, v) # p # ps)"

text \<open>
  \<open>keyBefore a b\<close>: the key \<open>a\<close> may stand before the key \<open>b\<close> in the enumeration of an
  object. An enumeration is a list of distinct keys that is sorted with respect to it.
\<close>

definition keyBefore :: "string \<Rightarrow> string \<Rightarrow> bool" where
  "keyBefore a b =
     (case arrayIndex a of
        Some m \<Rightarrow> (case arrayIndex b of Some n \<Rightarrow> m < n | None \<Rightarrow> True)
      | None \<Rightarrow> arrayIndex b = None)"

text \<open>
  The definition of an own property, as \<open>Object.fromEntries\<close> and \<open>JSON.parse\<close> do it:
  an existing key keeps its place.
\<close>

definition defineProp :: "string \<Rightarrow> 'v \<Rightarrow> (string \<times> 'v) list \<Rightarrow> (string \<times> 'v) list" where
  "defineProp k v ps =
     (if k \<in> fst ` set ps then map (\<lambda>p. if fst p = k then (k, v) else p) ps
      else case arrayIndex k of
             Some n \<Rightarrow> insertIndexed n k v ps
           | None \<Rightarrow> ps @ [(k, v)])"

text \<open>
  \<open>obj[k] = v\<close> on an ordinary object, which \<open>Object.assign\<close> does as well: the key
  \<open>__proto__\<close> reaches the setter of the prototype, which creates no property; any
  other key is defined.
\<close>

definition setProp :: "string \<Rightarrow> 'v \<Rightarrow> (string \<times> 'v) list \<Rightarrow> (string \<times> 'v) list" where
  "setProp k v ps = (if k = ''__proto__'' then ps else defineProp k v ps)"

text \<open>\<open>map.set(k, v)\<close> on a \<open>Map\<close>, which keeps its keys in the order of their insertion.\<close>

definition mapSet :: "'k \<Rightarrow> 'v \<Rightarrow> ('k \<times> 'v) list \<Rightarrow> ('k \<times> 'v) list" where
  "mapSet k v m =
     (if k \<in> fst ` set m then map (\<lambda>p. if fst p = k then (k, v) else p) m
      else m @ [(k, v)])"

text \<open>\<open>Object.fromEntries\<close>: the entries are defined one after the other on a fresh object.\<close>

definition fromEntries :: "(string \<times> 'v) list \<Rightarrow> (string \<times> 'v) list" where
  "fromEntries es = foldl (\<lambda>obj e. defineProp (fst e) (snd e) obj) [] es"

text \<open>
  The own enumerable string-keyed properties of a value, as \<open>Object.keys\<close>, \<open>Object.entries\<close>
  and \<open>Object.assign\<close> read them: the members of an object, the elements of an array
  and the characters of a string under their indices, nothing for the other values.
\<close>

definition ownEntries :: "json \<Rightarrow> (string \<times> json) list" where
  "ownEntries j =
     (case j of
        JObj ps \<Rightarrow> ps
      | JArr xs \<Rightarrow> zip (map showNat [0..<length xs]) xs
      | JStr s \<Rightarrow> zip (map showNat [0..<length s]) (map (\<lambda>c. JStr [c]) s)
      | _ \<Rightarrow> [])"

definition truthy :: "json \<Rightarrow> bool" where
  "truthy j =
     (case j of
        JNull \<Rightarrow> False
      | JBool b \<Rightarrow> b
      | JNum s \<Rightarrow> s \<noteq> ''0''
      | JStr s \<Rightarrow> s \<noteq> []
      | _ \<Rightarrow> True)"

subsection \<open>\<open>JSON.stringify\<close>\<close>

definition escapeChar :: "char \<Rightarrow> string" where
  "escapeChar c =
     (if c = CHR 0x22 then [CHR 0x5C, CHR 0x22]
      else if c = CHR 0x5C then [CHR 0x5C, CHR 0x5C]
      else if c = CHR 0x08 then [CHR 0x5C, CHR ''b'']
      else if c = CHR 0x0C then [CHR 0x5C, CHR ''f'']
      else if c = CHR 0x0A then [CHR 0x5C, CHR ''n'']
      else if c = CHR 0x0D then [CHR 0x5C, CHR ''r'']
      else if c = CHR 0x09 then [CHR 0x5C, CHR ''t'']
      else if (of_char c :: nat) < 32
        then [CHR 0x5C, CHR ''u'', CHR ''0'', CHR ''0'',
              hexDigit (of_char c div 16), hexDigit (of_char c mod 16)]
      else [c])"

definition quoteJSON :: "string \<Rightarrow> string" where
  "quoteJSON s = [CHR 0x22] @ concat (map escapeChar s) @ [CHR 0x22]"

fun joinWith :: "string \<Rightarrow> string list \<Rightarrow> string" where
  "joinWith sep [] = []"
| "joinWith sep [x] = x"
| "joinWith sep (x # y # ys) = x @ sep @ joinWith sep (y # ys)"

definition wrapItems :: "string \<Rightarrow> string \<Rightarrow> string \<Rightarrow> string \<Rightarrow> string list \<Rightarrow> string" where
  "wrapItems gap ind opening closing items =
     (if items = [] then opening @ closing
      else if gap = [] then opening @ joinWith '','' items @ closing
      else opening @ [CHR 0x0A] @ ind @ gap
             @ joinWith ('','' @ [CHR 0x0A] @ ind @ gap) items
             @ [CHR 0x0A] @ ind @ closing)"

fun stringifyAt :: "string \<Rightarrow> string \<Rightarrow> json \<Rightarrow> string" where
  "stringifyAt gap ind JNull = ''null''"
| "stringifyAt gap ind (JBool b) = (if b then ''true'' else ''false'')"
| "stringifyAt gap ind (JNum s) = s"
| "stringifyAt gap ind (JStr s) = quoteJSON s"
| "stringifyAt gap ind (JArr xs) =
     wrapItems gap ind ''['' '']'' (map (stringifyAt gap (ind @ gap)) xs)"
| "stringifyAt gap ind (JObj ps) =
     wrapItems gap ind ''{'' ''}''
       (map (\<lambda>(k, v). quoteJSON k @ (if gap = [] then '':'' else '': '')
                        @ stringifyAt gap (ind @ gap) v) ps)"

text \<open>
  \<open>JSON_stringify n j\<close> is \<open>JSON.stringify(j, null, n)\<close> for \<open>n \<le> 10\<close>;
  \<open>JSON_stringify 0 j\<close> is \<open>JSON.stringify(j)\<close>.
\<close>

definition JSON_stringify :: "nat \<Rightarrow> json \<Rightarrow> string" where
  "JSON_stringify n j = stringifyAt (replicate n CHR '' '') [] j"

section \<open>The program's data\<close>

datatype error =
    AssertionError string
  | Error string
  | SyntaxError
  | TypeError
  | SystemError

record Config =
  outDir :: "string option"
  scope :: "string option"

record TemplateVariant =
  displayName :: string
  description :: "string option"
  required :: "bool option"
  scripts :: "string list option"
  files :: "string list"

record TemplateFiles =
  mergeMethod :: "string option"

text \<open>
  The interface \<open>Template\<close>. Its fields \<open>displayName\<close>, \<open>description\<close> and \<open>files\<close> carry
  the prefix \<open>template\<close> here, since a variant has fields of the same names. The
  template schema does not require \<open>files\<close>, so a loaded template may lack it.
\<close>

record Template =
  templateDisplayName :: string
  templateDescription :: "string option"
  variants :: "(string \<times> TemplateVariant) list"
  templateFiles :: "(string \<times> TemplateFiles) list option"

record LoadedTemplate = Template +
  templateId :: string
  directory :: string
  variantFiles :: "(string \<times> (string \<times> string) list) list"

record SourceFileInfo =
  variant :: string
  sourceText :: string

text \<open>
  The interface \<open>MergedFileInfo\<close>; its field \<open>sourceText\<close> is \<open>mergedText\<close> here.
\<close>

record MergedFileInfo =
  contributingVariants :: "string list"
  mergedText :: string

text \<open>
  The default export of a merger's module. A merger is called with the array \<open>sources\<close>
  itself, not with a copy, and may change it (\<open>pop\<close>, \<open>reverse\<close>, an assignment to an
  element): when it returns, it gives its result and the array as it has left it.
\<close>

datatype moduleDefault =
    NotAFunction
  | Function "SourceFileInfo list \<Rightarrow> error + json \<times> SourceFileInfo list"

text \<open>
  What the program takes from its surroundings: \<open>JSON.parse\<close> (\<open>None\<close> when it throws),
  the dynamic \<open>import\<close> of a custom merger's module and its default export (a merger
  returns a value or throws; a returned value that is no string, array or object counts
  as \<open>JNull\<close>, which the result schema refuses all the same), the \<open>path\<close> module and the
  file system.
\<close>

record env =
  jsonParse :: "string \<Rightarrow> json option"
  importDefault :: "string \<Rightarrow> error + moduleDefault"
  pathJoin :: "string \<Rightarrow> string \<Rightarrow> string"
  pathResolve :: "string \<Rightarrow> string \<Rightarrow> string"
  existsSync :: "string \<Rightarrow> bool"
  statIsDirectory :: "string \<Rightarrow> bool option"
  readFile :: "string \<Rightarrow> string option"
  readdir :: "string \<Rightarrow> string list option"

section \<open>Merging the contributions to one path\<close>

text \<open>
  Modelled from the spec: the function \<open>deepmerge.all\<close> of the third-party package
  \<open>deepmerge\<close>, which \<open>mergeFiles\<close> calls and whose code is not part of the repository.
  The spec's words: deep-merge in contribution order; for conflicting keys holding
  objects, recurse; for any other conflicting value, the later source wins (an array is
  replaced, not concatenated).
\<close>

fun deepmerge :: "json \<Rightarrow> json \<Rightarrow> json"
  and deepmergeProps :: "(string \<times> json) list \<Rightarrow> (string \<times> json) list \<Rightarrow> (string \<times> json) list" where
  "deepmerge x (JObj b) = (case x of JObj a \<Rightarrow> JObj (deepmergeProps a b) | _ \<Rightarrow> JObj b)"
| "deepmerge x JNull = JNull"
| "deepmerge x (JBool c) = JBool c"
| "deepmerge x (JNum n) = JNum n"
| "deepmerge x (JStr s) = JStr s"
| "deepmerge x (JArr ys) = JArr ys"
| "deepmergeProps a [] = a"
| "deepmergeProps a ((k, v) # b) =
     deepmergeProps
       (defineProp k (case map_of a k of Some x \<Rightarrow> deepmerge x v | None \<Rightarrow> v) a) b"

definition deepmerge_all :: "json list \<Rightarrow> json" where
  "deepmerge_all js = (case js of [] \<Rightarrow> JObj [] | x # xs \<Rightarrow> foldl deepmerge x xs)"

text \<open>\<open>Object.assign({}, ...sources)\<close>.\<close>

definition Object_assign :: "json list \<Rightarrow> json" where
  "Object_assign js =
     JObj (foldl (\<lambda>obj j. foldl (\<lambda>acc e. setProp (fst e) (snd e) acc) obj (ownEntries j))
             [] js)"

text \<open>The schema of \<open>schemas/custom-result.ts\<close>, as the validator decides it.\<close>

definition isStringValue :: "json \<Rightarrow> bool" where
  "isStringValue j = (case j of JStr _ \<Rightarrow> True | _ \<Rightarrow> False)"

definition customResultSchema :: "json \<Rightarrow> bool" where
  "customResultSchema j =
     (case j of
        JStr _ \<Rightarrow> True
      | JObj ps \<Rightarrow>
          (case map_of ps ''sourceText'' of Some (JStr _) \<Rightarrow> True | _ \<Rightarrow> False)
          \<and> (case map_of ps ''contributingVariants'' of
                Some (JArr xs) \<Rightarrow> list_all isStringValue xs
              | _ \<Rightarrow> False)
      | _ \<Rightarrow> False)"

text \<open>
  A returned object read as a \<open>MergedFileInfo\<close>: the program reads its properties
  \<open>contributingVariants\<close> and \<open>sourceText\<close> and no other.
\<close>

definition stringOf :: "json \<Rightarrow> string" where
  "stringOf j = (case j of JStr s \<Rightarrow> s | _ \<Rightarrow> [])"

definition asMergedFileInfo :: "json \<Rightarrow> MergedFileInfo" where
  "asMergedFileInfo j =
     \<lparr>contributingVariants =
        (case map_of (ownEntries j) ''contributingVariants'' of
           Some (JArr xs) \<Rightarrow> map stringOf xs
         | _ \<Rightarrow> []),
      mergedText =
        (case map_of (ownEntries j) ''sourceText'' of Some (JStr s) \<Rightarrow> s | _ \<Rightarrow> [])\<rparr>"

definition isCustomMergeMethod :: "string \<Rightarrow> bool" where
  "isCustomMergeMethod m = (take 7 m = ''custom:'')"

fun parseAll :: "(string \<Rightarrow> json option) \<Rightarrow> SourceFileInfo list \<Rightarrow> json list option" where
  "parseAll parse [] = Some []"
| "parseAll parse (s # ss) =
     (case parse (sourceText s) of
        None \<Rightarrow> None
      | Some j \<Rightarrow> (case parseAll parse ss of None \<Rightarrow> None | Some js \<Rightarrow> Some (j # js)))"

text \<open>
  \<open>template.files[path]?.mergeMethod\<close>: reading a property of an absent \<open>files\<close> throws
  a \<open>TypeError\<close>; an absent entry or an entry without the key gives \<open>undefined\<close>.
\<close>

definition declaredMergeMethod :: "LoadedTemplate \<Rightarrow> string \<Rightarrow> error + string option" where
  "declaredMergeMethod t path =
     (case templateFiles t of
        None \<Rightarrow> Inl TypeError
      | Some fs \<Rightarrow> Inr (case map_of fs path of None \<Rightarrow> None | Some f \<Rightarrow> mergeMethod f))"

text \<open>
  The custom branch of \<open>mergeFiles\<close>. The message of the failed result check ends with
  the validator's own error texts in the source; they are left out here. The variants
  credited for a returned string are read from the array \<open>sources\<close> after the call, that
  is, from what the merger has left in it.
\<close>

definition mergeCustom :: "env \<Rightarrow> LoadedTemplate \<Rightarrow> string \<Rightarrow> SourceFileInfo list \<Rightarrow> error + MergedFileInfo" where
  "mergeCustom e t m sources =
     (let customMerger = drop 7 m;
          modulePath = pathJoin e (directory t) customMerger
      in case importDefault e modulePath of
           Inl err \<Rightarrow> Inl err
         | Inr NotAFunction \<Rightarrow>
             Inl (AssertionError (''Invalid custom merger `'' @ customMerger
                    @ ''`: default export is not a function''))
         | Inr (Function f) \<Rightarrow>
             (case f sources of
                Inl err \<Rightarrow> Inl err
              | Inr (result, sources') \<Rightarrow>
                  if \<not> customResultSchema result
                  then Inl (AssertionError (''Invalid custom merger `'' @ customMerger
                              @ ''`: invalid result: ''))
                  else (case result of
                          JStr s \<Rightarrow>
                            Inr \<lparr>contributingVariants = map variant sources', mergedText = s\<rparr>
                        | _ \<Rightarrow> Inr (asMergedFileInfo result))))"

definition mergeFiles :: "env \<Rightarrow> LoadedTemplate \<Rightarrow> string \<Rightarrow> SourceFileInfo list \<Rightarrow> error + MergedFileInfo" where
  "mergeFiles e t path sources =
     (if length sources = 0 then Inl (Error ''Sources length is zero. This shouldn't happen D:'')
      else if length sources = 1
        then Inr \<lparr>contributingVariants = [variant (sources ! 0)],
                  mergedText = sourceText (sources ! 0)\<rparr>
      else case declaredMergeMethod t path of
             Inl err \<Rightarrow> Inl err
           | Inr None \<Rightarrow> Inl (AssertionError (''Missing merge method for '' @ path))
           | Inr (Some m) \<Rightarrow>
               if m = [] then Inl (AssertionError (''Missing merge method for '' @ path))
               else if m = ''json'' then
                 (case parseAll (jsonParse e) sources of
                    None \<Rightarrow> Inl SyntaxError
                  | Some jsonSources \<Rightarrow>
                      Inr \<lparr>contributingVariants = map variant sources,
                           mergedText = JSON_stringify 2 (deepmerge_all jsonSources)\<rparr>)
               else if m = ''json-shallow'' then
                 (case parseAll (jsonParse e) sources of
                    None \<Rightarrow> Inl SyntaxError
                  | Some jsonSources \<Rightarrow>
                      Inr \<lparr>contributingVariants = map variant sources,
                           mergedText = JSON_stringify 2 (Object_assign jsonSources)\<rparr>)
               else if m = ''last'' then
                 (let source = sources ! (length sources - 1)
                  in Inr \<lparr>contributingVariants = [variant source],
                          mergedText = sourceText source\<rparr>)
               else if isCustomMergeMethod m then mergeCustom e t m sources
               else Inl (Error (''Invalid merge method for '' @ path)))"

section \<open>Generating the files of a run\<close>

definition getFullName :: "Config \<Rightarrow> string \<Rightarrow> string" where
  "getFullName config input =
     (case scope config of
        Some s \<Rightarrow> if s \<noteq> [] then s @ ''/'' @ input else input
      | None \<Rightarrow> input)"

text \<open>
  \<open>sortByKeys\<close>: the keys of the value are sorted by their code units and set, in that
  order, on a fresh object.
\<close>

definition sortByKeys :: "json \<Rightarrow> json" where
  "sortByKeys src =
     JObj (foldl (\<lambda>obj key. setProp key (the (map_of (ownEntries src) key)) obj) []
            (sort (map fst (ownEntries src))))"

definition getVariantIdsWithRequired :: "string list \<Rightarrow> LoadedTemplate \<Rightarrow> string list" where
  "getVariantIdsWithRequired variantIds template =
     variantIds @ map fst (filter (\<lambda>(k, v). required v = Some True) (variants template))"

text \<open>
  The part of \<open>run\<close> after the prompts. \<open>run_appliedVariantFiles\<close> is the constant
  \<open>appliedVariantFiles\<close>, \<open>run_files\<close> the map \<open>files\<close> once the collecting loop has
  ended (a \<open>Map\<close> keeps its keys in the order of their first insertion),
  \<open>run_sources\<close> the array handed to \<open>mergeFiles\<close> for one path.
\<close>

definition run_appliedVariantFiles :: "LoadedTemplate \<Rightarrow> string list \<Rightarrow> (string \<times> (string \<times> string) list) list" where
  "run_appliedVariantFiles template variantIdsWithRequired =
     filter (\<lambda>(k, _). k \<in> set variantIdsWithRequired) (variantFiles template)"

fun pushSource :: "string \<Rightarrow> SourceFileInfo \<Rightarrow> (string \<times> SourceFileInfo list) list \<Rightarrow> (string \<times> SourceFileInfo list) list" where
  "pushSource path s [] = [(path, [s])]"
| "pushSource path s ((p, arr) # m) =
     (if p = path then (p, arr @ [s]) # m else (p, arr) # pushSource path s m)"

definition run_files :: "LoadedTemplate \<Rightarrow> string list \<Rightarrow> (string \<times> SourceFileInfo list) list" where
  "run_files template variantIdsWithRequired =
     foldl (\<lambda>m (variantName, vfiles).
              foldl (\<lambda>m (path, source).
                       pushSource path \<lparr>variant = variantName, sourceText = source\<rparr> m)
                m vfiles)
       [] (run_appliedVariantFiles template variantIdsWithRequired)"

text \<open>\<open>files.get(path) ?? []\<close>.\<close>

definition sourcesFor :: "(string \<times> SourceFileInfo list) list \<Rightarrow> string \<Rightarrow> SourceFileInfo list" where
  "sourcesFor m path = (case map_of m path of Some arr \<Rightarrow> arr | None \<Rightarrow> [])"

text \<open>
  What holds of the map \<open>files\<close> throughout the collecting loop: its keys are distinct
  and no key is bound to an empty array.
\<close>

definition filesMap :: "(string \<times> SourceFileInfo list) list \<Rightarrow> bool" where
  "filesMap m = (distinct (map fst m) \<and> (\<forall>a \<in> set m. snd a \<noteq> []))"

definition internalNode :: "Config \<Rightarrow> string \<Rightarrow> SourceFileInfo" where
  "internalNode config packageName =
     \<lparr>variant = ''internal.node'',
      sourceText = JSON_stringify 0
        (JObj [(''name'', JStr (getFullName config packageName)),
               (''version'', JStr ''0.1.0'')])\<rparr>"

definition run_sources :: "Config \<Rightarrow> string \<Rightarrow> string \<Rightarrow> SourceFileInfo list \<Rightarrow> SourceFileInfo list" where
  "run_sources config packageName path sources =
     (if path = ''package.json'' then internalNode config packageName # sources else sources)"

text \<open>
  \<open>if (json.key) json.key = sortByKeys(json.key)\<close>: reading a property of \<open>null\<close>
  throws, a value that is no object has no such property.
\<close>

definition sortField :: "string \<Rightarrow> json \<Rightarrow> error + json" where
  "sortField key j =
     (case j of
        JNull \<Rightarrow> Inl TypeError
      | JObj ps \<Rightarrow>
          (case map_of ps key of
             Some v \<Rightarrow> if truthy v then Inr (JObj (setProp key (sortByKeys v) ps)) else Inr j
           | None \<Rightarrow> Inr j)
      | _ \<Rightarrow> Inr j)"

definition sortDependencies :: "json \<Rightarrow> error + json" where
  "sortDependencies j =
     (case sortField ''dependencies'' j of
        Inl err \<Rightarrow> Inl err
      | Inr j1 \<Rightarrow>
     (case sortField ''devDependencies'' j1 of
        Inl err \<Rightarrow> Inl err
      | Inr j2 \<Rightarrow>
     (case sortField ''peerDependencies'' j2 of
        Inl err \<Rightarrow> Inl err
      | Inr j3 \<Rightarrow> sortField ''optionalDependencies'' j3)))"

definition run_postMerge :: "env \<Rightarrow> string \<Rightarrow> MergedFileInfo \<Rightarrow> error + MergedFileInfo" where
  "run_postMerge e path fileSource =
     (if path = ''package.json'' then
        (case jsonParse e (mergedText fileSource) of
           None \<Rightarrow> Inl SyntaxError
         | Some fileSourceJson \<Rightarrow>
             (case sortDependencies fileSourceJson of
                Inl err \<Rightarrow> Inl err
              | Inr j4 \<Rightarrow> Inr (fileSource\<lparr>mergedText := JSON_stringify 2 j4\<rparr>)))
      else Inr fileSource)"

text \<open>
  What a run leaves behind: the files written, in the order of the writes, and the map
  \<open>fileVariants\<close>. The writes themselves are taken to succeed.
\<close>

record runOutput =
  written :: "(string \<times> string) list"
  fileVariants :: "(string \<times> string list) list"

definition run_file :: "env \<Rightarrow> Config \<Rightarrow> string \<Rightarrow> LoadedTemplate \<Rightarrow> string \<Rightarrow> SourceFileInfo list \<Rightarrow> runOutput \<Rightarrow> runOutput \<times> error option" where
  "run_file e config packageName template path sources out =
     (case mergeFiles e template path (run_sources config packageName path sources) of
        Inl err \<Rightarrow> (out, Some err)
      | Inr fileSource \<Rightarrow>
          (let out1 = out\<lparr>fileVariants :=
                 mapSet path (contributingVariants fileSource) (fileVariants out)\<rparr>
           in case run_postMerge e path fileSource of
                Inl err \<Rightarrow> (out1, Some err)
              | Inr final \<Rightarrow>
                  (out1\<lparr>written := written out1 @ [(path, mergedText final)]\<rparr>, None)))"

fun run_loop :: "env \<Rightarrow> Config \<Rightarrow> string \<Rightarrow> LoadedTemplate \<Rightarrow> (string \<times> SourceFileInfo list) list \<Rightarrow> runOutput \<Rightarrow> runOutput \<times> error option" where
  "run_loop e config packageName template [] out = (out, None)"
| "run_loop e config packageName template ((path, sources) # rest) out =
     (case run_file e config packageName template path sources out of
        (out1, Some err) \<Rightarrow> (out1, Some err)
      | (out1, None) \<Rightarrow> run_loop e config packageName template rest out1)"

definition run_generate :: "env \<Rightarrow> Config \<Rightarrow> string \<Rightarrow> LoadedTemplate \<Rightarrow> string list \<Rightarrow> runOutput \<times> error option" where
  "run_generate e config packageName template variantIds =
     run_loop e config packageName template
       (run_files template (getVariantIdsWithRequired variantIds template))
       \<lparr>written = [], fileVariants = []\<rparr>"

section \<open>Loading the templates\<close>

text \<open>
  The template schema (the first file of the sources), as the validator decides it: a
  keyword of \<open>properties\<close> binds a key only where the key is present, \<open>oneOf\<close> asks
  for exactly one alternative.
\<close>

definition isBooleanValue :: "json \<Rightarrow> bool" where
  "isBooleanValue j = (case j of JBool _ \<Rightarrow> True | _ \<Rightarrow> False)"

definition isStringArray :: "json \<Rightarrow> bool" where
  "isStringArray j = (case j of JArr xs \<Rightarrow> list_all isStringValue xs | _ \<Rightarrow> False)"

definition optionalProp :: "(json \<Rightarrow> bool) \<Rightarrow> string \<Rightarrow> (string \<times> json) list \<Rightarrow> bool" where
  "optionalProp ok k ps = (case map_of ps k of None \<Rightarrow> True | Some v \<Rightarrow> ok v)"

definition requiredProps :: "string list \<Rightarrow> (string \<times> json) list \<Rightarrow> bool" where
  "requiredProps ks ps = list_all (\<lambda>k. map_of ps k \<noteq> None) ks"

definition variantSchema :: "json \<Rightarrow> bool" where
  "variantSchema j =
     (case j of
        JObj ps \<Rightarrow>
          requiredProps [''displayName'', ''files''] ps
          \<and> optionalProp isStringValue ''displayName'' ps
          \<and> optionalProp isStringValue ''description'' ps
          \<and> optionalProp isBooleanValue ''required'' ps
          \<and> optionalProp isStringArray ''scripts'' ps
          \<and> optionalProp isStringArray ''files'' ps
      | _ \<Rightarrow> False)"

definition mergeMethodSchema :: "json \<Rightarrow> bool" where
  "mergeMethodSchema j =
     (length (filter (\<lambda>b. b)
        [j = JStr ''json'', j = JStr ''json-shallow'', j = JStr ''last'',
         (case j of JStr s \<Rightarrow> take 7 s = ''custom:'' | _ \<Rightarrow> False)]) = 1)"

definition fileConfigSchema :: "json \<Rightarrow> bool" where
  "fileConfigSchema j =
     (case j of JObj ps \<Rightarrow> optionalProp mergeMethodSchema ''mergeMethod'' ps | _ \<Rightarrow> False)"

definition variantsSchema :: "json \<Rightarrow> bool" where
  "variantsSchema j =
     (case j of
        JObj vs \<Rightarrow> 1 \<le> length vs \<and> list_all (\<lambda>p. variantSchema (snd p)) vs
      | _ \<Rightarrow> False)"

definition filesSchema :: "json \<Rightarrow> bool" where
  "filesSchema j =
     (case j of JObj fs \<Rightarrow> list_all (\<lambda>p. fileConfigSchema (snd p)) fs | _ \<Rightarrow> False)"

definition templateSchema :: "json \<Rightarrow> bool" where
  "templateSchema j =
     (case j of
        JObj ps \<Rightarrow>
          requiredProps [''displayName'', ''variants''] ps
          \<and> optionalProp isStringValue ''displayName'' ps
          \<and> optionalProp isStringValue ''description'' ps
          \<and> optionalProp variantsSchema ''variants'' ps
          \<and> optionalProp filesSchema ''files'' ps
      | _ \<Rightarrow> False)"

text \<open>A parsed definition read through the interfaces \<open>TemplateVariant\<close> and \<open>Template\<close>.\<close>

definition asStringList :: "json \<Rightarrow> string list" where
  "asStringList j = (case j of JArr xs \<Rightarrow> map stringOf xs | _ \<Rightarrow> [])"

definition asTemplateVariant :: "json \<Rightarrow> TemplateVariant" where
  "asTemplateVariant j =
     (let ps = ownEntries j
      in \<lparr>displayName = (case map_of ps ''displayName'' of Some v \<Rightarrow> stringOf v | None \<Rightarrow> []),
          description = map_option stringOf (map_of ps ''description''),
          required = (case map_of ps ''required'' of Some (JBool b) \<Rightarrow> Some b | _ \<Rightarrow> None),
          scripts = map_option asStringList (map_of ps ''scripts''),
          files = (case map_of ps ''files'' of Some v \<Rightarrow> asStringList v | None \<Rightarrow> [])\<rparr>)"

definition asTemplateFiles :: "json \<Rightarrow> TemplateFiles" where
  "asTemplateFiles j =
     \<lparr>mergeMethod = (case map_of (ownEntries j) ''mergeMethod'' of
                       Some (JStr s) \<Rightarrow> Some s
                     | _ \<Rightarrow> None)\<rparr>"

definition configVariants :: "json \<Rightarrow> (string \<times> TemplateVariant) list" where
  "configVariants templateConfig =
     (case map_of (ownEntries templateConfig) ''variants'' of
        Some vs \<Rightarrow> map (\<lambda>p. (fst p, asTemplateVariant (snd p))) (ownEntries vs)
      | None \<Rightarrow> [])"

definition configDisplayName :: "json \<Rightarrow> string" where
  "configDisplayName templateConfig =
     (case map_of (ownEntries templateConfig) ''displayName'' of
        Some v \<Rightarrow> stringOf v
      | None \<Rightarrow> [])"

definition asLoadedTemplate :: "json \<Rightarrow> string \<Rightarrow> string \<Rightarrow> (string \<times> (string \<times> string) list) list \<Rightarrow> LoadedTemplate" where
  "asLoadedTemplate templateConfig ident templateDirectory vf =
     \<lparr>templateDisplayName = configDisplayName templateConfig,
      templateDescription = map_option stringOf (map_of (ownEntries templateConfig) ''description''),
      variants = configVariants templateConfig,
      templateFiles =
        map_option (\<lambda>fs. map (\<lambda>p. (fst p, asTemplateFiles (snd p))) (ownEntries fs))
          (map_of (ownEntries templateConfig) ''files''),
      templateId = ident,
      directory = templateDirectory,
      variantFiles = vf\<rparr>"

text \<open>
  The files of one variant. Every callback of \<open>variant.files.map\<close> runs its check
  before any file is read, so a missing file is reported before a failed read, and the
  first missing file is the one reported.
\<close>

definition readVariantFiles :: "env \<Rightarrow> string \<Rightarrow> string \<Rightarrow> string list \<Rightarrow> error + (string \<times> string) list" where
  "readVariantFiles e variantLabel variantDirectory paths =
     (case find (\<lambda>path. \<not> existsSync e (pathJoin e variantDirectory path)) paths of
        Some path \<Rightarrow>
          Inl (AssertionError (''Invalid '' @ variantLabel @ '': the file '' @ path
                 @ '' doesn't exist''))
      | None \<Rightarrow>
          (case those (map (\<lambda>path. readFile e (pathJoin e variantDirectory path)) paths) of
             None \<Rightarrow> Inl SystemError
           | Some texts \<Rightarrow> Inr (fromEntries (zip paths texts))))"

fun loadVariants :: "env \<Rightarrow> string \<Rightarrow> string \<Rightarrow> string list \<Rightarrow> (string \<times> (string \<times> string) list) list \<Rightarrow> (string \<times> TemplateVariant) list \<Rightarrow> error + (string \<times> (string \<times> string) list) list" where
  "loadVariants e ident templateDirectory usedVariantDisplayNames vf [] = Inr vf"
| "loadVariants e ident templateDirectory usedVariantDisplayNames vf ((variantId, v) # rest) =
     (let variantLabel = ''variant `'' @ variantId @ ''` for template `'' @ ident @ ''`'';
          variantDirectory = pathJoin e templateDirectory variantId
      in if displayName v \<in> set usedVariantDisplayNames
         then Inl (AssertionError (''Invalid '' @ variantLabel
                     @ '': the display name is already being used''))
         else if \<not> existsSync e variantDirectory
         then Inl (AssertionError (''Invalid '' @ variantLabel
                     @ '': its directory does not exist''))
         else (case statIsDirectory e variantDirectory of
                 None \<Rightarrow> Inl SystemError
               | Some False \<Rightarrow>
                   Inl (AssertionError (''Invalid '' @ variantLabel
                          @ '': its directory is not a directory''))
               | Some True \<Rightarrow>
                   (case readVariantFiles e variantLabel variantDirectory (files v) of
                      Inl err \<Rightarrow> Inl err
                    | Inr fs \<Rightarrow>
                        loadVariants e ident templateDirectory
                          (displayName v # usedVariantDisplayNames)
                          (mapSet variantId fs vf) rest)))"

text \<open>
  The definition of one template: the directory, \<open>template.json\<close>, its text, its
  value, the schema. The message of the failed schema check ends with the validator's
  own error texts in the source; they are left out here.
\<close>

definition readTemplateConfig :: "env \<Rightarrow> string \<Rightarrow> string \<Rightarrow> error + json" where
  "readTemplateConfig e dir ident =
     (let templateDirectory = pathResolve e dir ident;
          configPath = pathJoin e templateDirectory ''template.json''
      in case statIsDirectory e templateDirectory of
           None \<Rightarrow> Inl SystemError
         | Some False \<Rightarrow> Inl (AssertionError (''invalid template '' @ ident @ '': not a directory''))
         | Some True \<Rightarrow>
             if \<not> existsSync e configPath
             then Inl (AssertionError (''Invalid template `'' @ ident
                         @ ''`: template.json does not exist''))
             else (case readFile e configPath of
                     None \<Rightarrow> Inl SystemError
                   | Some templateConfigSource \<Rightarrow>
                       (case jsonParse e templateConfigSource of
                          None \<Rightarrow> Inl SyntaxError
                        | Some templateConfig \<Rightarrow>
                            if \<not> templateSchema templateConfig
                            then Inl (AssertionError (''Invalid template `'' @ ident
                                        @ ''`: invalid configuration: ''))
                            else Inr templateConfig)))"

fun readTemplates_loop :: "env \<Rightarrow> string \<Rightarrow> string list \<Rightarrow> (string \<times> LoadedTemplate) list \<Rightarrow> string list \<Rightarrow> error + (string \<times> LoadedTemplate) list" where
  "readTemplates_loop e dir usedTemplateDisplayNames result [] = Inr result"
| "readTemplates_loop e dir usedTemplateDisplayNames result (ident # rest) =
     (case readTemplateConfig e dir ident of
        Inl err \<Rightarrow> Inl err
      | Inr templateConfig \<Rightarrow>
          if configDisplayName templateConfig \<in> set usedTemplateDisplayNames
          then Inl (AssertionError (''Invalid template `'' @ ident @ ''`: duplicate display name''))
          else (case loadVariants e ident (pathResolve e dir ident) [] []
                       (configVariants templateConfig) of
                  Inl err \<Rightarrow> Inl err
                | Inr vf \<Rightarrow>
                    readTemplates_loop e dir
                      (configDisplayName templateConfig # usedTemplateDisplayNames)
                      (mapSet ident
                         (asLoadedTemplate templateConfig ident (pathResolve e dir ident)
                            (fromEntries vf))
                         result)
                      rest))"

definition readTemplates :: "env \<Rightarrow> string \<Rightarrow> error + (string \<times> LoadedTemplate) list" where
  "readTemplates e dir =
     (if \<not> existsSync e dir
      then Inl (AssertionError
                  ''templates directory is missing in create-rpm-library configuration'')
      else (case readdir e dir of
              None \<Rightarrow> Inl SystemError
            | Some templateDirectories \<Rightarrow>
                (case readTemplates_loop e dir [] [] templateDirectories of
                   Inl err \<Rightarrow> Inl err
                 | Inr result \<Rightarrow> Inr (fromEntries result))))"

text \<open>
  What the checks of \<open>readTemplates\<close> amount to, said without the loops.
  \<open>definitionOf\<close> is the value of a template's \<open>template.json\<close>, where the template is
  a directory that holds such a file with a text that parses. A variant loads when its
  directory is one and each file it declares is there and can be read. A template loads
  when its definition passes the schema, the display names of its variants differ and
  every variant loads. The templates load when each does and their display names differ.
\<close>

definition definitionOf :: "env \<Rightarrow> string \<Rightarrow> string \<Rightarrow> json option" where
  "definitionOf e dir ident =
     (let configPath = pathJoin e (pathResolve e dir ident) ''template.json''
      in if statIsDirectory e (pathResolve e dir ident) = Some True \<and> existsSync e configPath
         then (case readFile e configPath of
                 Some templateConfigSource \<Rightarrow> jsonParse e templateConfigSource
               | None \<Rightarrow> None)
         else None)"

definition variantLoads :: "env \<Rightarrow> string \<Rightarrow> string \<Rightarrow> TemplateVariant \<Rightarrow> bool" where
  "variantLoads e templateDirectory variantId v =
     (let variantDirectory = pathJoin e templateDirectory variantId
      in existsSync e variantDirectory
         \<and> statIsDirectory e variantDirectory = Some True
         \<and> (\<forall>path \<in> set (files v).
               existsSync e (pathJoin e variantDirectory path)
               \<and> readFile e (pathJoin e variantDirectory path) \<noteq> None))"

definition templateLoads :: "env \<Rightarrow> string \<Rightarrow> string \<Rightarrow> bool" where
  "templateLoads e dir ident =
     (case definitionOf e dir ident of
        None \<Rightarrow> False
      | Some templateConfig \<Rightarrow>
          templateSchema templateConfig
          \<and> distinct (map (\<lambda>p. displayName (snd p)) (configVariants templateConfig))
          \<and> (\<forall>p \<in> set (configVariants templateConfig).
                variantLoads e (pathResolve e dir ident) (fst p) (snd p)))"

definition templatesLoad :: "env \<Rightarrow> string \<Rightarrow> bool" where
  "templatesLoad e dir =
     (existsSync e dir
      \<and> (case readdir e dir of
            None \<Rightarrow> False
          | Some templateDirectories \<Rightarrow>
              (\<forall>ident \<in> set templateDirectories. templateLoads e dir ident)
              \<and> distinct (map (\<lambda>ident. configDisplayName (the (definitionOf e dir ident)))
                            templateDirectories)))"

section \<open>A small configuration, for the examples\<close>

text \<open>
  One template \<open>lib\<close> under \<open>/t\<close> with the required variant \<open>base\<close> and the variants
  \<open>ts\<close> and \<open>docs\<close>. Paths are joined with a slash; \<open>JSON.parse\<close> knows the documents
  of the example as \<open>JSON.stringify\<close> prints them.
\<close>

definition exampleJoin :: "string \<Rightarrow> string \<Rightarrow> string" where
  "exampleJoin a b = a @ ''/'' @ b"

definition exampleTemplateConfig :: json where
  "exampleTemplateConfig =
     JObj [(''displayName'', JStr ''Library''),
           (''variants'', JObj
              [(''ts'', JObj [(''displayName'', JStr ''TypeScript''),
                             (''files'', JArr [JStr ''package.json''])]),
               (''base'', JObj [(''displayName'', JStr ''Base''),
                               (''required'', JBool True),
                               (''files'', JArr [JStr ''package.json'', JStr ''README.md''])]),
               (''docs'', JObj [(''displayName'', JStr ''Docs''),
                               (''files'', JArr [JStr ''README.md''])])]),
           (''files'', JObj [(''package.json'', JObj [(''mergeMethod'', JStr ''json'')])])]"

text \<open>The same definition with the display name \<open>Base\<close> given to two variants.\<close>

definition exampleDuplicateConfig :: json where
  "exampleDuplicateConfig =
     JObj [(''displayName'', JStr ''Library''),
           (''variants'', JObj
              [(''ts'', JObj [(''displayName'', JStr ''Base''),
                             (''files'', JArr [JStr ''package.json''])]),
               (''base'', JObj [(''displayName'', JStr ''Base''),
                               (''required'', JBool True),
                               (''files'', JArr [JStr ''package.json'', JStr ''README.md''])])])]"

text \<open>A definition whose only variant supplies no \<open>package.json\<close>.\<close>

definition exampleDocsConfig :: json where
  "exampleDocsConfig =
     JObj [(''displayName'', JStr ''Docs only''),
           (''variants'', JObj
              [(''docs'', JObj [(''displayName'', JStr ''Docs''),
                               (''required'', JBool True),
                               (''files'', JArr [JStr ''README.md''])])])]"

text \<open>A definition that declares a file which the example's file system lacks.\<close>

definition exampleMissingConfig :: json where
  "exampleMissingConfig =
     JObj [(''displayName'', JStr ''Library''),
           (''variants'', JObj
              [(''docs'', JObj [(''displayName'', JStr ''Docs''),
                               (''files'', JArr [JStr ''README.md'', JStr ''GUIDE.md''])])])]"



text \<open>A definition without variants.\<close>

definition exampleInvalidConfig :: json where
  "exampleInvalidConfig = JObj [(''displayName'', JStr ''Library'')]"

definition examplePackageTs :: json where
  "examplePackageTs =
     JObj [(''devDependencies'', JObj [(''typescript'', JStr ''5''), (''eslint'', JStr ''8'')]),
           (''dependencies'', JObj [(''tslib'', JStr ''2'')])]"

definition examplePackageBase :: json where
  "examplePackageBase =
     JObj [(''dependencies'', JObj [(''lodash'', JStr ''4''), (''debug'', JStr ''3'')])]"

definition exampleConfig :: Config where
  "exampleConfig = \<lparr>outDir = None, scope = Some ''@s''\<rparr>"

definition exampleInternal :: json where
  "exampleInternal = JObj [(''name'', JStr ''@s/pkg''), (''version'', JStr ''0.1.0'')]"

definition exampleMerged :: json where
  "exampleMerged = deepmerge_all [exampleInternal, examplePackageTs, examplePackageBase]"

text \<open>The \<open>package.json\<close> expected of a run with the variants \<open>ts\<close> and \<open>base\<close>.\<close>

definition exampleFinal :: json where
  "exampleFinal =
     JObj [(''name'', JStr ''@s/pkg''), (''version'', JStr ''0.1.0''),
           (''devDependencies'', JObj [(''eslint'', JStr ''8''), (''typescript'', JStr ''5'')]),
           (''dependencies'',
              JObj [(''debug'', JStr ''3''), (''lodash'', JStr ''4''), (''tslib'', JStr ''2'')])]"

text \<open>A manifest whose dependencies have names that are array indices.\<close>

definition exampleNumeric :: json where
  "exampleNumeric =
     JObj [(''dependencies'', JObj [(''b'', JStr ''1''), (''10'', JStr ''2''), (''9'', JStr ''3'')])]"

definition exampleParse :: "json \<Rightarrow> string \<Rightarrow> json option" where
  "exampleParse templateConfig s =
     (if s = JSON_stringify 0 exampleInternal then Some exampleInternal
      else case map_of (map (\<lambda>j. (JSON_stringify 2 j, j))
                         [examplePackageTs, examplePackageBase, exampleMerged, exampleNumeric]) s of
             Some j \<Rightarrow> Some j
           | None \<Rightarrow> if s = JSON_stringify 2 templateConfig then Some templateConfig else None)"

text \<open>
  A custom merger that keeps the last source and credits its variant alone; it leaves
  the array as it is.
\<close>

definition exampleMerger :: "SourceFileInfo list \<Rightarrow> error + json \<times> SourceFileInfo list" where
  "exampleMerger sources =
     Inr (JObj [(''sourceText'', JStr (sourceText (last sources))),
                (''contributingVariants'', JArr [JStr (variant (last sources))])],
          sources)"

text \<open>
  A custom merger that returns the texts of its sources, one after the other, and
  leaves the array as it is.
\<close>

definition exampleConcat :: "SourceFileInfo list \<Rightarrow> error + json \<times> SourceFileInfo list" where
  "exampleConcat sources = Inr (JStr (concat (map sourceText sources)), sources)"

text \<open>
  A custom merger written as \<open>sources => sources.pop().sourceText\<close>: it returns the text
  of the last source, which \<open>pop\<close> has removed from the array.
\<close>

definition examplePop :: "SourceFileInfo list \<Rightarrow> error + json \<times> SourceFileInfo list" where
  "examplePop sources =
     (if sources = [] then Inl TypeError
      else Inr (JStr (sourceText (last sources)), butlast sources))"

definition exampleFileSystem :: "json \<Rightarrow> (string \<times> string option) list" where
  "exampleFileSystem templateConfig =
     [(''/t'', None),
      (''/t/lib'', None),
      (''/t/lib/template.json'', Some (JSON_stringify 2 templateConfig)),
      (''/t/lib/ts'', None),
      (''/t/lib/ts/package.json'', Some (JSON_stringify 2 examplePackageTs)),
      (''/t/lib/base'', None),
      (''/t/lib/base/package.json'', Some (JSON_stringify 2 examplePackageBase)),
      (''/t/lib/base/README.md'', Some ''# base''),
      (''/t/lib/docs'', None),
      (''/t/lib/docs/README.md'', Some ''# docs''),
      (''/t/lib/b'', None),
      (''/t/lib/b/README.md'', Some ''# b''),
      (''/t/lib/10'', None),
      (''/t/lib/10/README.md'', Some ''# 10''),
      (''/t/lib/9'', None),
      (''/t/lib/9/README.md'', Some ''# 9'')]"

text \<open>
  The surroundings of the example: the file system holds the entries above (a
  directory has no text), its template definition is the argument.
\<close>

definition exampleEnv :: "json \<Rightarrow> env" where
  "exampleEnv templateConfig =
     \<lparr>jsonParse = exampleParse templateConfig,
      importDefault = (\<lambda>p. if p = ''/t/lib/last.js'' then Inr (Function exampleMerger)
                            else if p = ''/t/lib/concat.js'' then Inr (Function exampleConcat)
                            else if p = ''/t/lib/pop.js'' then Inr (Function examplePop)
                            else if p = ''/t/lib/data.js'' then Inr NotAFunction
                            else Inl SystemError),
      pathJoin = exampleJoin,
      pathResolve = exampleJoin,
      existsSync = (\<lambda>p. map_of (exampleFileSystem templateConfig) p \<noteq> None),
      statIsDirectory = (\<lambda>p. map_option (\<lambda>text. text = None)
                                 (map_of (exampleFileSystem templateConfig) p)),
      readFile = (\<lambda>p. case map_of (exampleFileSystem templateConfig) p of
                          Some text \<Rightarrow> text
                        | None \<Rightarrow> None),
      readdir = (\<lambda>p. if p = ''/t'' then Some [''lib''] else None)\<rparr>"

text \<open>The template \<open>lib\<close> as loaded from that file system.\<close>

definition exampleTemplate :: LoadedTemplate where
  "exampleTemplate =
     asLoadedTemplate exampleTemplateConfig ''lib'' ''/t/lib''
       [(''ts'', [(''package.json'', JSON_stringify 2 examplePackageTs)]),
        (''base'', [(''package.json'', JSON_stringify 2 examplePackageBase),
                   (''README.md'', ''# base'')]),
        (''docs'', [(''README.md'', ''# docs'')])]"

definition exampleDocsTemplate :: LoadedTemplate where
  "exampleDocsTemplate =
     asLoadedTemplate exampleDocsConfig ''lib'' ''/t/lib''
       [(''docs'', [(''README.md'', ''# docs'')])]"



section \<open>The merge of one path\<close>

text \<open>
  Claim C6. A path with exactly one contribution is merged to that contribution's text,
  unchanged, with that one variant credited. The merge method is not looked up: the
  result is the same for every template, also one that declares no merge method for
  the path or no \<open>files\<close> at all.
\<close>

theorem mergeFiles_single_source:
  "mergeFiles e t path [s] = Inr \<lparr>contributingVariants = [variant s], mergedText = sourceText s\<rparr>"
  by (simp add: mergeFiles_def)

text \<open>
  The check of the merge method. When the template has \<open>files\<close> and they declare no
  merge method for a path with two or more contributions (no entry for the path, or an
  entry without \<open>mergeMethod\<close>), \<open>mergeFiles\<close> fails with the assertion error whose
  message is \<open>Missing merge method for\<close> followed by the path.
\<close>

lemma mergeFiles_missing_merge_method:
  assumes "2 \<le> length sources"
    and "templateFiles t = Some fs"
    and "map_of fs path = None \<or> (\<exists>f. map_of fs path = Some f \<and> mergeMethod f = None)"
  shows "mergeFiles e t path sources = Inl (AssertionError (''Missing merge method for '' @ path))"
  using assms by (auto simp add: mergeFiles_def declaredMergeMethod_def)

lemma mergeFiles_missing_merge_method_example:
  "templateFiles exampleTemplate = Some [(''package.json'', \<lparr>mergeMethod = Some ''json''\<rparr>)]
   \<and> mergeFiles (exampleEnv exampleTemplateConfig) exampleTemplate ''README.md''
         [\<lparr>variant = ''base'', sourceText = ''# base''\<rparr>,
          \<lparr>variant = ''docs'', sourceText = ''# docs''\<rparr>]
       = Inl (AssertionError ''Missing merge method for README.md'')"
proof -
  let ?fs = "[(''package.json'', \<lparr>mergeMethod = Some ''json''\<rparr>)]"
  let ?sources = "[\<lparr>variant = ''base'', sourceText = ''# base''\<rparr>,
          \<lparr>variant = ''docs'', sourceText = ''# docs''\<rparr>]"
  have 1: "2 \<le> length ?sources" by simp
  have 2: "templateFiles exampleTemplate = Some ?fs" by code_simp
  have 3: "map_of ?fs ''README.md'' = None
             \<or> (\<exists>f. map_of ?fs ''README.md'' = Some f \<and> mergeMethod f = None)" by simp
  from mergeFiles_missing_merge_method[OF 1 2 3, of "exampleEnv exampleTemplateConfig"] 2
  show ?thesis by simp
qed

text \<open>
  A template without \<open>files\<close> never reaches that check: \<open>template.files[path]\<close> reads a
  property of \<open>undefined\<close>, which throws a \<open>TypeError\<close>.
\<close>

lemma mergeFiles_without_files:
  assumes "2 \<le> length sources" and "templateFiles t = None"
  shows "mergeFiles e t path sources = Inl TypeError"
  using assms by (auto simp add: mergeFiles_def declaredMergeMethod_def)


subsection \<open>Custom mergers\<close>

lemma custom_not_builtin:
  "isCustomMergeMethod m \<Longrightarrow> m \<noteq> [] \<and> m \<noteq> ''json'' \<and> m \<noteq> ''json-shallow'' \<and> m \<noteq> ''last''"
  by (auto simp add: isCustomMergeMethod_def)

lemma mergeFiles_custom_branch:
  assumes "2 \<le> length sources"
    and "declaredMergeMethod t path = Inr (Some m)"
    and "isCustomMergeMethod m"
  shows "mergeFiles e t path sources = mergeCustom e t m sources"
  using assms custom_not_builtin[of m] by (auto simp add: mergeFiles_def)

lemma customResultSchema_object:
  assumes "customResultSchema (JObj ps)"
  obtains body xs where "map_of ps ''sourceText'' = Some (JStr body)"
    and "map_of ps ''contributingVariants'' = Some (JArr xs)"
    and "list_all isStringValue xs"
proof -
  from assms have a: "(case map_of ps ''sourceText'' of Some (JStr _) \<Rightarrow> True | _ \<Rightarrow> False)"
    and b: "(case map_of ps ''contributingVariants'' of
                Some (JArr xs) \<Rightarrow> list_all isStringValue xs
              | _ \<Rightarrow> False)"
    by (simp_all add: customResultSchema_def)
  from a obtain body where 1: "map_of ps ''sourceText'' = Some (JStr body)"
    by (cases "map_of ps ''sourceText''") (simp, rename_tac j, case_tac j, simp_all)
  from b obtain xs where 2: "map_of ps ''contributingVariants'' = Some (JArr xs)"
    and 3: "list_all isStringValue xs"
    by (cases "map_of ps ''contributingVariants''") (simp, rename_tac j, case_tac j, simp_all)
  from 1 2 3 that show thesis by blast
qed

lemma map_JStr_stringOf: "list_all isStringValue xs \<Longrightarrow> map JStr (map stringOf xs) = xs"
  by (induction xs) (auto simp add: isStringValue_def stringOf_def split: json.splits)

lemma mergeCustom_string:
  assumes "importDefault e (pathJoin e (directory t) (drop 7 m)) = Inr (Function f)"
    and "f sources = Inr (JStr s, left)"
  shows "mergeCustom e t m sources
           = Inr \<lparr>contributingVariants = map variant left, mergedText = s\<rparr>"
  using assms by (simp add: mergeCustom_def customResultSchema_def)

lemma mergeCustom_object:
  assumes "importDefault e (pathJoin e (directory t) (drop 7 m)) = Inr (Function f)"
    and "f sources = Inr (JObj ps, left)"
    and "customResultSchema (JObj ps)"
  shows "mergeCustom e t m sources = Inr (asMergedFileInfo (JObj ps))"
  using assms by (simp add: mergeCustom_def)

text \<open>
  Claim C5, amended. For a path merged with a \<open>custom:\<close> method whose merger returns a
  value: a returned string is the merged text, and the credited variants are those of
  the array of contributions as the merger has left it, which are all contributors, in
  order, when the merger has not changed the array; a returned object that passes the
  result schema gives the merged text and the credited variants as its own
  \<open>sourceText\<close> and \<open>contributingVariants\<close> hold them, whatever the merger has done to
  the array (the witness credits one of two contributors).
\<close>

theorem mergeFiles_custom_result:
  assumes "2 \<le> length sources"
    and "declaredMergeMethod t path = Inr (Some m)"
    and "isCustomMergeMethod m"
    and "importDefault e (pathJoin e (directory t) (drop 7 m)) = Inr (Function f)"
    and "f sources = Inr (result, left)"
  shows "(\<forall>s. result = JStr s \<longrightarrow>
            mergeFiles e t path sources
              = Inr \<lparr>contributingVariants = map variant left, mergedText = s\<rparr>
            \<and> (left = sources \<longrightarrow>
                 mergeFiles e t path sources
                   = Inr \<lparr>contributingVariants = map variant sources, mergedText = s\<rparr>))
       \<and> (\<forall>ps. result = JObj ps \<and> customResultSchema result \<longrightarrow>
            (\<exists>r. mergeFiles e t path sources = Inr r
               \<and> map_of ps ''sourceText'' = Some (JStr (mergedText r))
               \<and> map_of ps ''contributingVariants''
                    = Some (JArr (map JStr (contributingVariants r)))))"
proof (intro conjI allI impI)
  fix s
  assume "result = JStr s"
  with assms show str: "mergeFiles e t path sources
              = Inr \<lparr>contributingVariants = map variant left, mergedText = s\<rparr>"
    by (simp add: mergeFiles_custom_branch mergeCustom_string)
  assume "left = sources"
  with str show "mergeFiles e t path sources
              = Inr \<lparr>contributingVariants = map variant sources, mergedText = s\<rparr>"
    by simp
next
  fix ps
  assume hyp: "result = JObj ps \<and> customResultSchema result"
  then have valid: "customResultSchema (JObj ps)" by auto
  then obtain body xs where body: "map_of ps ''sourceText'' = Some (JStr body)"
    and xs: "map_of ps ''contributingVariants'' = Some (JArr xs)"
    and strs: "list_all isStringValue xs"
    by (rule customResultSchema_object)
  have m: "mergeFiles e t path sources = Inr (asMergedFileInfo (JObj ps))"
    using assms hyp valid by (simp add: mergeFiles_custom_branch mergeCustom_object)
  have "mergedText (asMergedFileInfo (JObj ps)) = body"
    and "contributingVariants (asMergedFileInfo (JObj ps)) = map stringOf xs"
    using body xs by (simp_all add: asMergedFileInfo_def ownEntries_def)
  with m body xs map_JStr_stringOf[OF strs]
  show "\<exists>r. mergeFiles e t path sources = Inr r
               \<and> map_of ps ''sourceText'' = Some (JStr (mergedText r))
               \<and> map_of ps ''contributingVariants''
                    = Some (JArr (map JStr (contributingVariants r)))"
    by simp
qed

theorem mergeFiles_custom_result_witness:
  "mergeFiles (exampleEnv exampleTemplateConfig)
      (exampleTemplate\<lparr>templateFiles := Some [(''README.md'', \<lparr>mergeMethod = Some ''custom:last.js''\<rparr>)]\<rparr>)
      ''README.md''
      [\<lparr>variant = ''base'', sourceText = ''# base''\<rparr>, \<lparr>variant = ''docs'', sourceText = ''# docs''\<rparr>]
     = Inr \<lparr>contributingVariants = [''docs''], mergedText = ''# docs''\<rparr>
   \<and> mergeFiles (exampleEnv exampleTemplateConfig)
      (exampleTemplate\<lparr>templateFiles := Some [(''README.md'', \<lparr>mergeMethod = Some ''custom:concat.js''\<rparr>)]\<rparr>)
      ''README.md''
      [\<lparr>variant = ''base'', sourceText = ''# base''\<rparr>, \<lparr>variant = ''docs'', sourceText = ''# docs''\<rparr>]
     = Inr \<lparr>contributingVariants = [''base'', ''docs''], mergedText = ''# base# docs''\<rparr>"
proof -
  let ?e = "exampleEnv exampleTemplateConfig"
  let ?t = "\<lambda>m. exampleTemplate\<lparr>templateFiles := Some [(''README.md'', \<lparr>mergeMethod = Some m\<rparr>)]\<rparr>"
  let ?sources = "[\<lparr>variant = ''base'', sourceText = ''# base''\<rparr>,
          \<lparr>variant = ''docs'', sourceText = ''# docs''\<rparr>]"
  let ?obj = "[(''sourceText'', JStr ''# docs''), (''contributingVariants'', JArr [JStr ''docs''])]"
  have len: "2 \<le> length ?sources" by simp
  have m: "declaredMergeMethod (?t m) ''README.md'' = Inr (Some m)" for m
    by (simp add: declaredMergeMethod_def)
  have c1: "isCustomMergeMethod ''custom:last.js''" and c2: "isCustomMergeMethod ''custom:concat.js''"
    by (simp_all add: isCustomMergeMethod_def)
  have dir: "directory (?t m) = ''/t/lib''" for m
    by (simp add: exampleTemplate_def asLoadedTemplate_def)
  have i1: "importDefault ?e (pathJoin ?e (directory (?t ''custom:last.js'')) (drop 7 ''custom:last.js''))
              = Inr (Function exampleMerger)"
    by (simp add: dir exampleEnv_def exampleJoin_def)
  have i2: "importDefault ?e (pathJoin ?e (directory (?t ''custom:concat.js'')) (drop 7 ''custom:concat.js''))
              = Inr (Function exampleConcat)"
    by (simp add: dir exampleEnv_def exampleJoin_def)
  have r1: "exampleMerger ?sources = Inr (JObj ?obj, ?sources)" by (simp add: exampleMerger_def)
  have r2: "exampleConcat ?sources = Inr (JStr ''# base# docs'', ?sources)"
    by (simp add: exampleConcat_def)
  have v: "customResultSchema (JObj ?obj)" by (simp add: customResultSchema_def isStringValue_def)
  from mergeFiles_custom_result[OF len m c1 i1 r1] v
  obtain r where "mergeFiles ?e (?t ''custom:last.js'') ''README.md'' ?sources = Inr r"
    and "mergedText r = ''# docs''" and "contributingVariants r = [''docs'']"
    by auto
  moreover from mergeFiles_custom_result[OF len m c2 i2 r2]
  have "mergeFiles ?e (?t ''custom:concat.js'') ''README.md'' ?sources
      = Inr \<lparr>contributingVariants = map variant ?sources, mergedText = ''# base# docs''\<rparr>"
    by simp
  ultimately show ?thesis by (cases r) simp
qed

text \<open>
  The claim as it was stated fails for a merger that changes the array it is given.
  The merger \<open>examplePop\<close> returns a string, the text of \<open>docs\<close>, and has removed that
  source from the array: the merged file is credited to \<open>base\<close> alone, not to both
  contributors.
\<close>

theorem mergeFiles_custom_merger_pop:
  "examplePop [\<lparr>variant = ''base'', sourceText = ''# base''\<rparr>,
               \<lparr>variant = ''docs'', sourceText = ''# docs''\<rparr>]
     = Inr (JStr ''# docs'', [\<lparr>variant = ''base'', sourceText = ''# base''\<rparr>])
   \<and> mergeFiles (exampleEnv exampleTemplateConfig)
      (exampleTemplate\<lparr>templateFiles := Some [(''README.md'', \<lparr>mergeMethod = Some ''custom:pop.js''\<rparr>)]\<rparr>)
      ''README.md''
      [\<lparr>variant = ''base'', sourceText = ''# base''\<rparr>, \<lparr>variant = ''docs'', sourceText = ''# docs''\<rparr>]
     = Inr \<lparr>contributingVariants = [''base''], mergedText = ''# docs''\<rparr>"
proof
  show "examplePop [\<lparr>variant = ''base'', sourceText = ''# base''\<rparr>,
               \<lparr>variant = ''docs'', sourceText = ''# docs''\<rparr>]
     = Inr (JStr ''# docs'', [\<lparr>variant = ''base'', sourceText = ''# base''\<rparr>])"
    by (simp add: examplePop_def)
  show "mergeFiles (exampleEnv exampleTemplateConfig)
      (exampleTemplate\<lparr>templateFiles := Some [(''README.md'', \<lparr>mergeMethod = Some ''custom:pop.js''\<rparr>)]\<rparr>)
      ''README.md''
      [\<lparr>variant = ''base'', sourceText = ''# base''\<rparr>, \<lparr>variant = ''docs'', sourceText = ''# docs''\<rparr>]
     = Inr \<lparr>contributingVariants = [''base''], mergedText = ''# docs''\<rparr>"
    by code_simp
qed

section \<open>The active variants\<close>

lemma required_keys_eq:
  "[k. (k, v) \<leftarrow> xs, required v = Some True]
     = map fst (filter (\<lambda>(k, v). required v = Some True) xs)"
  by (induction xs) auto

lemma required_keys_set:
  "set (map fst (filter (\<lambda>(k, v). required v = Some True) xs))
     = {k. \<exists>v. (k, v) \<in> set xs \<and> required v = Some True}"
  by (induction xs) auto

text \<open>
  Claim C3, amended. The active list is the chosen IDs followed by the IDs of the
  template's required variants in the template's order. As a set it is the union of
  the chosen IDs and the required variants, so every required variant is active
  whatever the user selects. The list is not deduplicated: for a template whose variant
  IDs are distinct it is free of repetitions exactly when the chosen list is and names
  no required variant.
\<close>

theorem getVariantIdsWithRequired_shape:
  "getVariantIdsWithRequired variantIds t
     = variantIds @ [k. (k, v) \<leftarrow> variants t, required v = Some True]
   \<and> set (getVariantIdsWithRequired variantIds t)
     = set variantIds \<union> {k. \<exists>v. (k, v) \<in> set (variants t) \<and> required v = Some True}
   \<and> (distinct (map fst (variants t)) \<longrightarrow>
        (distinct (getVariantIdsWithRequired variantIds t)
          \<longleftrightarrow> distinct variantIds
              \<and> set variantIds \<inter> {k. \<exists>v. (k, v) \<in> set (variants t) \<and> required v = Some True} = {}))"
proof -
  let ?req = "{k. \<exists>v. (k, v) \<in> set (variants t) \<and> required v = Some True}"
  let ?ks = "map fst (filter (\<lambda>(k, v). required v = Some True) (variants t))"
  have s: "set ?ks = ?req" by (rule required_keys_set)
  have d: "distinct (map fst (variants t)) \<Longrightarrow> distinct ?ks"
    by (simp add: distinct_map_filter)
  have 1: "getVariantIdsWithRequired variantIds t
     = variantIds @ [k. (k, v) \<leftarrow> variants t, required v = Some True]"
    by (simp only: getVariantIdsWithRequired_def required_keys_eq)
  have 2: "set (getVariantIdsWithRequired variantIds t) = set variantIds \<union> ?req"
    unfolding getVariantIdsWithRequired_def set_append s ..
  have 3: "distinct (getVariantIdsWithRequired variantIds t)
          \<longleftrightarrow> distinct variantIds \<and> set variantIds \<inter> ?req = {}"
    if "distinct (map fst (variants t))"
    unfolding getVariantIdsWithRequired_def distinct_append s using d[OF that] by blast
  from 1 2 3 show ?thesis by blast
qed

theorem getVariantIdsWithRequired_shape_witness:
  "distinct (map fst (variants exampleTemplate))
   \<and> getVariantIdsWithRequired [''docs''] exampleTemplate = [''docs'', ''base'']
   \<and> distinct (getVariantIdsWithRequired [''docs''] exampleTemplate)
   \<and> getVariantIdsWithRequired [''base''] exampleTemplate = [''base'', ''base'']"
proof -
  have d: "distinct (map fst (variants exampleTemplate))" by code_simp
  have r: "[k. (k, v) \<leftarrow> variants exampleTemplate, required v = Some True] = [''base'']"
    by code_simp
  from getVariantIdsWithRequired_shape[of "[''docs'']" exampleTemplate]
       getVariantIdsWithRequired_shape[of "[''base'']" exampleTemplate] d r
  show ?thesis by simp
qed

text \<open>
  The claim as stated fails: a required variant that is also chosen is listed twice.
\<close>

theorem getVariantIdsWithRequired_not_deduplicated:
  "\<not> distinct (getVariantIdsWithRequired [''base''] exampleTemplate)"
  by code_simp

section \<open>Collecting the contributions\<close>

lemma sourcesFor_pushSource:
  "sourcesFor (pushSource p s m) q = sourcesFor m q @ (if q = p then [s] else [])"
  by (induction m) (auto simp add: sourcesFor_def)

lemma sourcesFor_variant:
  "sourcesFor (foldl (\<lambda>m (path, source).
                       pushSource path \<lparr>variant = v, sourceText = source\<rparr> m) m vfiles) q
     = sourcesFor m q @ [\<lparr>variant = v, sourceText = src\<rparr>. (p, src) \<leftarrow> vfiles, p = q]"
  by (induction vfiles arbitrary: m) (auto simp add: sourcesFor_pushSource)

lemma sourcesFor_variants:
  "sourcesFor (foldl (\<lambda>m (variantName, vfiles).
              foldl (\<lambda>m (path, source).
                       pushSource path \<lparr>variant = variantName, sourceText = source\<rparr> m)
                m vfiles) m applied) q
     = sourcesFor m q
       @ [\<lparr>variant = v, sourceText = src\<rparr>. (v, vfiles) \<leftarrow> applied, (p, src) \<leftarrow> vfiles, p = q]"
  by (induction applied arbitrary: m) (auto simp add: sourcesFor_variant)

lemma concat_filter_keys:
  "concat (map (\<lambda>(v, vfiles). f v vfiles) (filter (\<lambda>(k, _). k \<in> A) xs))
     = concat (map (\<lambda>(v, vfiles). if v \<in> A then f v vfiles else []) xs)"
  by (induction xs) auto

text \<open>
  The contributions collected for a path are those of the active variants as the
  template lists them in \<open>variantFiles\<close>, the catalog that \<open>readTemplates\<close> fills; each
  variant's file is appended in that order. The order in which the user chose the
  variants plays no part: two lists of active IDs with the same members collect the
  same map.
\<close>

lemma run_files_catalog_order:
  "sourcesFor (run_files t ids) path
     = [\<lparr>variant = v, sourceText = src\<rparr>.
          (v, vfiles) \<leftarrow> variantFiles t, v \<in> set ids, (p, src) \<leftarrow> vfiles, p = path]
   \<and> (\<forall>ids'. set ids' = set ids \<longrightarrow> run_files t ids' = run_files t ids)"
proof
  show "sourcesFor (run_files t ids) path
     = [\<lparr>variant = v, sourceText = src\<rparr>.
          (v, vfiles) \<leftarrow> variantFiles t, v \<in> set ids, (p, src) \<leftarrow> vfiles, p = path]"
    unfolding run_files_def run_appliedVariantFiles_def sourcesFor_variants
    by (simp add: sourcesFor_def concat_filter_keys)
  show "\<forall>ids'. set ids' = set ids \<longrightarrow> run_files t ids' = run_files t ids"
    by (simp add: run_files_def run_appliedVariantFiles_def)
qed

lemma run_files_catalog_order_example:
  "sourcesFor (run_files exampleTemplate [''docs'', ''base'']) ''README.md''
     = [\<lparr>variant = ''base'', sourceText = ''# base''\<rparr>,
        \<lparr>variant = ''docs'', sourceText = ''# docs''\<rparr>]
   \<and> run_files exampleTemplate [''base'', ''docs''] = run_files exampleTemplate [''docs'', ''base'']"
proof -
  have c: "[\<lparr>variant = v, sourceText = src\<rparr>.
          (v, vfiles) \<leftarrow> variantFiles exampleTemplate, v \<in> set [''docs'', ''base''],
          (p, src) \<leftarrow> vfiles, p = ''README.md'']
        = [\<lparr>variant = ''base'', sourceText = ''# base''\<rparr>,
        \<lparr>variant = ''docs'', sourceText = ''# docs''\<rparr>]"
    by code_simp
  have s: "set [''base'', ''docs''] = set [''docs'', ''base'']" by (simp add: insert_commute)
  note th = run_files_catalog_order[of exampleTemplate "[''docs'', ''base'']" "''README.md''"]
  from th[THEN conjunct1] c
  have 1: "sourcesFor (run_files exampleTemplate [''docs'', ''base'']) ''README.md''
     = [\<lparr>variant = ''base'', sourceText = ''# base''\<rparr>,
        \<lparr>variant = ''docs'', sourceText = ''# docs''\<rparr>]"
    by (rule trans)
  from th[THEN conjunct2, THEN spec, THEN mp, OF s]
  have 2: "run_files exampleTemplate [''base'', ''docs''] = run_files exampleTemplate [''docs'', ''base'']" .
  from 1 2 show ?thesis by (rule conjI)
qed

lemma at_most_one_per_path:
  "distinct (map fst fs) \<Longrightarrow>
   [g src. (p, src) \<leftarrow> fs, p = path]
     = (case map_of fs path of Some src \<Rightarrow> [g src] | None \<Rightarrow> [])"
proof (induction fs)
  case Nil
  then show ?case by simp
next
  case (Cons a fs)
  obtain p src where a: "a = (p, src)" by (cases a)
  show ?case
  proof (cases "p = path")
    case True
    with Cons.prems a have "path \<notin> fst ` set fs" by auto
    then have "map_of fs path = None" by (simp add: map_of_eq_None_iff)
    with Cons a True show ?thesis by simp
  next
    case False
    with Cons a show ?thesis by simp
  qed
qed

lemma variants_of_one:
  assumes "distinct (map fst fs)"
  shows "map variant [\<lparr>variant = v, sourceText = src\<rparr>. (p, src) \<leftarrow> fs, p = path]
           = (if map_of fs path \<noteq> None then [v] else [])"
proof (cases "map_of fs path")
  case None
  with at_most_one_per_path[OF assms, where g = "\<lambda>src. \<lparr>variant = v, sourceText = src\<rparr>" and path = path]
  show ?thesis by simp
next
  case (Some src)
  with at_most_one_per_path[OF assms, where g = "\<lambda>src. \<lparr>variant = v, sourceText = src\<rparr>" and path = path]
  show ?thesis by simp
qed

lemma variants_of_sources:
  assumes "\<forall>a \<in> set vfs. distinct (map fst (snd a))"
  shows "map variant (concat (map (\<lambda>(v, vfiles). if v \<in> A
            then [\<lparr>variant = v, sourceText = src\<rparr>. (p, src) \<leftarrow> vfiles, p = path] else []) vfs))
     = map fst (filter (\<lambda>(v, vfiles). v \<in> A \<and> map_of vfiles path \<noteq> None) vfs)"
  using assms
proof (induction vfs)
  case Nil
  then show ?case by simp
next
  case (Cons a vfs)
  obtain v fs where a: "a = (v, fs)" by (cases a)
  with Cons.prems have d: "distinct (map fst fs)" by simp
  from Cons.prems have "\<forall>a \<in> set vfs. distinct (map fst (snd a))" by simp
  then have ih: "map variant (concat (map (\<lambda>(v, vfiles). if v \<in> A
            then [\<lparr>variant = v, sourceText = src\<rparr>. (p, src) \<leftarrow> vfiles, p = path] else []) vfs))
     = map fst (filter (\<lambda>(v, vfiles). v \<in> A \<and> map_of vfiles path \<noteq> None) vfs)"
    by (rule Cons.IH)
  define C where "C = [\<lparr>variant = v, sourceText = src\<rparr>. (p, src) \<leftarrow> fs, p = path]"
  have c: "map variant C = (if map_of fs path \<noteq> None then [v] else [])"
    unfolding C_def by (rule variants_of_one[OF d])
  have "(\<lambda>(v, vfiles). if v \<in> A
            then [\<lparr>variant = v, sourceText = src\<rparr>. (p, src) \<leftarrow> vfiles, p = path] else []) a
          = (if v \<in> A then C else [])"
    by (simp add: a C_def)
  then show ?case using ih c by (cases "map_of fs path") (auto simp add: a)
qed

text \<open>
  Claim C10. In a template whose variant IDs are distinct and whose variants each list a
  path once (as the keys of an object are), every variant has at most one entry among
  the contributions collected for a path, however often its ID occurs in the list of
  active IDs: the loop goes through the catalog once and asks of each entry whether its
  ID is in the list.
\<close>

theorem run_files_one_entry_per_variant:
  assumes "distinct (map fst (variantFiles t))"
    and "\<forall>a \<in> set (variantFiles t). distinct (map fst (snd a))"
  shows "distinct (map variant (sourcesFor (run_files t ids) path))"
proof -
  have "sourcesFor (run_files t ids) path
     = concat (map (\<lambda>(v, vfiles). if v \<in> set ids
            then [\<lparr>variant = v, sourceText = src\<rparr>. (p, src) \<leftarrow> vfiles, p = path] else []) (variantFiles t))"
    using run_files_catalog_order[of t ids path] by (rule conjunct1)
  then have "map variant (sourcesFor (run_files t ids) path)
      = map fst (filter (\<lambda>(v, vfiles). v \<in> set ids \<and> map_of vfiles path \<noteq> None) (variantFiles t))"
    by (simp only: variants_of_sources[OF assms(2)])
  with assms(1) show ?thesis by (simp only: distinct_map_filter)
qed

theorem run_files_one_entry_per_variant_witness:
  "distinct (map fst (variantFiles exampleTemplate))
   \<and> list_all (\<lambda>a. distinct (map fst (snd a))) (variantFiles exampleTemplate)
   \<and> distinct (map variant
        (sourcesFor (run_files exampleTemplate [''base'', ''docs'', ''base'']) ''README.md''))
   \<and> map variant
        (sourcesFor (run_files exampleTemplate [''base'', ''docs'', ''base'']) ''README.md'')
      = [''base'', ''docs'']"
proof -
  have 1: "distinct (map fst (variantFiles exampleTemplate))" by code_simp
  have la: "list_all (\<lambda>a. distinct (map fst (snd a))) (variantFiles exampleTemplate)" by code_simp
  then have 2: "\<forall>a \<in> set (variantFiles exampleTemplate). distinct (map fst (snd a))"
    by (simp only: list_all_iff)
  have 3: "map variant
        (sourcesFor (run_files exampleTemplate [''base'', ''docs'', ''base'']) ''README.md'')
      = [''base'', ''docs'']"
    by code_simp
  from run_files_one_entry_per_variant[OF 1 2, of "[''base'', ''docs'', ''base'']" "''README.md''"] 1 la 3
  show ?thesis by blast
qed

section \<open>The files of a run\<close>

lemma foldl_invariant:
  assumes "\<And>m x. P m \<Longrightarrow> P (f m x)" and "P m"
  shows "P (foldl f m xs)"
  using assms(2) by (induction xs arbitrary: m) (simp_all add: assms(1))

lemma pushSource_keys:
  "map fst (pushSource p s m) = (if p \<in> set (map fst m) then map fst m else map fst m @ [p])"
  by (induction p s m rule: pushSource.induct) (auto simp add: rev_image_eqI)

lemma pushSource_nonempty:
  "\<forall>a \<in> set m. snd a \<noteq> [] \<Longrightarrow> \<forall>a \<in> set (pushSource p s m). snd a \<noteq> []"
  by (induction p s m rule: pushSource.induct) (auto split: if_splits)

lemma filesMap_pushSource: "filesMap m \<Longrightarrow> filesMap (pushSource p s m)"
  unfolding filesMap_def using pushSource_nonempty[of m p s] by (simp add: pushSource_keys)

lemma filesMap_run_files: "filesMap (run_files t ids)"
  unfolding run_files_def
proof (rule foldl_invariant)
  show "filesMap []" by (simp add: filesMap_def)
next
  fix m :: "(string \<times> SourceFileInfo list) list" and x :: "string \<times> (string \<times> string) list"
  assume m: "filesMap m"
  obtain variantName vfiles where x: "x = (variantName, vfiles)" by (cases x)
  have "filesMap (foldl (\<lambda>m (path, source).
                       pushSource path \<lparr>variant = variantName, sourceText = source\<rparr> m) m vfiles)"
  proof (rule foldl_invariant)
    show "filesMap m" by (rule m)
  next
    fix m' :: "(string \<times> SourceFileInfo list) list" and y :: "string \<times> string"
    assume "filesMap m'"
    then show "filesMap (case y of (path, source) \<Rightarrow>
                 pushSource path \<lparr>variant = variantName, sourceText = source\<rparr> m')"
      by (cases y) (simp add: filesMap_pushSource)
  qed
  then show "filesMap (case x of (variantName, vfiles) \<Rightarrow>
              foldl (\<lambda>m (path, source).
                       pushSource path \<lparr>variant = variantName, sourceText = source\<rparr> m)
                m vfiles)"
    by (simp add: x)
qed

lemma filesMap_entry:
  assumes "filesMap m"
  shows "(path, sources) \<in> set m \<longleftrightarrow> sources \<noteq> [] \<and> sourcesFor m path = sources"
proof
  assume a: "(path, sources) \<in> set m"
  with assms have "map_of m path = Some sources" by (simp add: filesMap_def)
  moreover from a assms have "sources \<noteq> []" by (auto simp add: filesMap_def)
  ultimately show "sources \<noteq> [] \<and> sourcesFor m path = sources" by (simp add: sourcesFor_def)
next
  assume "sources \<noteq> [] \<and> sourcesFor m path = sources"
  then have "map_of m path = Some sources"
    by (cases "map_of m path") (auto simp add: sourcesFor_def)
  then show "(path, sources) \<in> set m" by (rule map_of_SomeD)
qed

lemma run_file_success:
  assumes "run_file e c p t path sources out = (out1, None)"
  obtains r final where "mergeFiles e t path (run_sources c p path sources) = Inr r"
    and "run_postMerge e path r = Inr final"
    and "written out1 = written out @ [(path, mergedText final)]"
proof -
  from assms obtain r where r: "mergeFiles e t path (run_sources c p path sources) = Inr r"
    by (cases "mergeFiles e t path (run_sources c p path sources)") (simp_all add: run_file_def)
  with assms obtain final where f: "run_postMerge e path r = Inr final"
    by (cases "run_postMerge e path r") (simp_all add: run_file_def Let_def)
  from assms r f have "written out1 = written out @ [(path, mergedText final)]"
    by (auto simp add: run_file_def Let_def)
  with r f that show thesis by blast
qed

lemma run_loop_written:
  assumes "run_loop e c p t entries out = (out', None)"
  shows "set (written out') = set (written out) \<union>
           {(path, text). \<exists>sources r final. (path, sources) \<in> set entries
              \<and> mergeFiles e t path (run_sources c p path sources) = Inr r
              \<and> run_postMerge e path r = Inr final \<and> text = mergedText final}"
  using assms
proof (induction entries arbitrary: out)
  case Nil
  then show ?case by simp
next
  case (Cons a entries)
  obtain path sources where a: "a = (path, sources)" by (cases a)
  obtain out1 err where rf: "run_file e c p t path sources out = (out1, err)"
    by (cases "run_file e c p t path sources out")
  with Cons.prems a have err: "err = None" and rest: "run_loop e c p t entries out1 = (out', None)"
    by (cases err; simp)+
  from rf err obtain r final where r: "mergeFiles e t path (run_sources c p path sources) = Inr r"
    and f: "run_postMerge e path r = Inr final"
    and w: "written out1 = written out @ [(path, mergedText final)]"
    by (auto elim: run_file_success)
  from Cons.IH[OF rest] have ih: "set (written out') = set (written out1) \<union>
           {(path, text). \<exists>sources r final. (path, sources) \<in> set entries
              \<and> mergeFiles e t path (run_sources c p path sources) = Inr r
              \<and> run_postMerge e path r = Inr final \<and> text = mergedText final}" .
  show ?case unfolding ih w a using r f by auto
qed

lemma internalNode_text:
  "sourceText (internalNode config packageName)
     = ''{'' @ [CHR 0x22] @ ''name'' @ [CHR 0x22] @ '':'' @ quoteJSON (getFullName config packageName)
       @ '','' @ [CHR 0x22] @ ''version'' @ [CHR 0x22] @ '':'' @ [CHR 0x22] @ ''0.1.0'' @ [CHR 0x22] @ ''}''"
  by (simp add: internalNode_def JSON_stringify_def wrapItems_def quoteJSON_def escapeChar_def)

text \<open>
  Claim C1, amended. In a run that ends without an error, a file \<open>package.json\<close> is
  written exactly when some active variant supplies one, and its text is then the merge
  of the synthetic contribution of \<open>internal.node\<close> followed by the contributions of
  the variants, after the step that sorts its dependencies. The text of the synthetic
  contribution is the object with \<open>name\<close>, the package name behind the configured scope
  if there is one, and \<open>version\<close> \<open>0.1.0\<close>. In a run where no active variant supplies
  \<open>package.json\<close> nothing is merged or written under that path.
\<close>

theorem run_generate_package_json:
  assumes "run_generate e config packageName t variantIds = (out, None)"
  shows "variant (internalNode config packageName) = ''internal.node''
     \<and> sourceText (internalNode config packageName)
         = ''{'' @ [CHR 0x22] @ ''name'' @ [CHR 0x22] @ '':''
             @ quoteJSON (getFullName config packageName)
             @ '','' @ [CHR 0x22] @ ''version'' @ [CHR 0x22] @ '':''
             @ [CHR 0x22] @ ''0.1.0'' @ [CHR 0x22] @ ''}''
     \<and> (\<forall>content. (''package.json'', content) \<in> set (written out) \<longleftrightarrow>
          (\<exists>r final.
             sourcesFor (run_files t (getVariantIdsWithRequired variantIds t)) ''package.json'' \<noteq> []
             \<and> mergeFiles e t ''package.json''
                  (internalNode config packageName
                     # sourcesFor (run_files t (getVariantIdsWithRequired variantIds t))
                         ''package.json'') = Inr r
             \<and> run_postMerge e ''package.json'' r = Inr final
             \<and> content = mergedText final))"
proof (intro conjI allI)
  show "variant (internalNode config packageName) = ''internal.node''"
    by (simp add: internalNode_def)
  show "sourceText (internalNode config packageName)
         = ''{'' @ [CHR 0x22] @ ''name'' @ [CHR 0x22] @ '':''
             @ quoteJSON (getFullName config packageName)
             @ '','' @ [CHR 0x22] @ ''version'' @ [CHR 0x22] @ '':''
             @ [CHR 0x22] @ ''0.1.0'' @ [CHR 0x22] @ ''}''"
    by (rule internalNode_text)
next
  fix content
  let ?m = "run_files t (getVariantIdsWithRequired variantIds t)"
  have fm: "filesMap ?m" by (rule filesMap_run_files)
  have src: "run_sources config packageName ''package.json'' sources
               = internalNode config packageName # sources" for sources
    by (simp add: run_sources_def)
  from assms have "run_loop e config packageName t ?m \<lparr>written = [], fileVariants = []\<rparr> = (out, None)"
    by (simp add: run_generate_def)
  from run_loop_written[OF this]
  have w: "set (written out) =
           {(path, content). \<exists>sources r final. (path, sources) \<in> set ?m
              \<and> mergeFiles e t path (run_sources config packageName path sources) = Inr r
              \<and> run_postMerge e path r = Inr final \<and> content = mergedText final}"
    by simp
  show "(''package.json'', content) \<in> set (written out) \<longleftrightarrow>
          (\<exists>r final. sourcesFor ?m ''package.json'' \<noteq> []
             \<and> mergeFiles e t ''package.json''
                  (internalNode config packageName # sourcesFor ?m ''package.json'') = Inr r
             \<and> run_postMerge e ''package.json'' r = Inr final
             \<and> content = mergedText final)"
    unfolding w using filesMap_entry[OF fm, of "''package.json''"] src by auto
qed

theorem run_generate_package_json_witness:
  "run_generate (exampleEnv exampleTemplateConfig) exampleConfig ''pkg'' exampleTemplate [''ts'']
     = (\<lparr>written = [(''package.json'', JSON_stringify 2 exampleFinal), (''README.md'', ''# base'')],
         fileVariants = [(''package.json'', [''internal.node'', ''ts'', ''base'']),
                         (''README.md'', [''base''])]\<rparr>, None)
   \<and> (\<exists>r final.
         mergeFiles (exampleEnv exampleTemplateConfig) exampleTemplate ''package.json''
           (internalNode exampleConfig ''pkg''
            # [\<lparr>variant = ''ts'', sourceText = JSON_stringify 2 examplePackageTs\<rparr>,
               \<lparr>variant = ''base'', sourceText = JSON_stringify 2 examplePackageBase\<rparr>]) = Inr r
       \<and> run_postMerge (exampleEnv exampleTemplateConfig) ''package.json'' r = Inr final
       \<and> JSON_stringify 2 exampleFinal = mergedText final)"
proof -
  let ?out = "\<lparr>written = [(''package.json'', JSON_stringify 2 exampleFinal), (''README.md'', ''# base'')],
         fileVariants = [(''package.json'', [''internal.node'', ''ts'', ''base'']),
                         (''README.md'', [''base''])]\<rparr>"
  have run: "run_generate (exampleEnv exampleTemplateConfig) exampleConfig ''pkg'' exampleTemplate [''ts'']
     = (?out, None)"
    by code_simp
  have src: "sourcesFor (run_files exampleTemplate (getVariantIdsWithRequired [''ts''] exampleTemplate))
               ''package.json''
     = [\<lparr>variant = ''ts'', sourceText = JSON_stringify 2 examplePackageTs\<rparr>,
        \<lparr>variant = ''base'', sourceText = JSON_stringify 2 examplePackageBase\<rparr>]"
    by code_simp
  have mem: "(''package.json'', JSON_stringify 2 exampleFinal) \<in> set (written ?out)"
    by (simp only: runOutput.simps list.set insert_iff simp_thms)
  note th = run_generate_package_json[OF run, THEN conjunct2, THEN conjunct2, THEN spec,
              of "JSON_stringify 2 exampleFinal", THEN iffD1, OF mem, unfolded src]
  then obtain r final where
    "mergeFiles (exampleEnv exampleTemplateConfig) exampleTemplate ''package.json''
           (internalNode exampleConfig ''pkg''
            # [\<lparr>variant = ''ts'', sourceText = JSON_stringify 2 examplePackageTs\<rparr>,
               \<lparr>variant = ''base'', sourceText = JSON_stringify 2 examplePackageBase\<rparr>]) = Inr r"
    and "run_postMerge (exampleEnv exampleTemplateConfig) ''package.json'' r = Inr final"
    and "JSON_stringify 2 exampleFinal = mergedText final"
    by blast
  with run show ?thesis by blast
qed

text \<open>
  The claim as stated fails: the run below has no variant with a \<open>package.json\<close>; it
  ends without an error and writes \<open>README.md\<close> alone.
\<close>

theorem run_generate_without_package_json:
  "run_generate (exampleEnv exampleDocsConfig) exampleConfig ''pkg'' exampleDocsTemplate []
     = (\<lparr>written = [(''README.md'', ''# docs'')],
         fileVariants = [(''README.md'', [''docs''])]\<rparr>, None)"
  by code_simp

section \<open>Objects and the order of their keys\<close>

lemma arrayIndex_inject:
  assumes "arrayIndex a = Some n" and "arrayIndex b = Some n"
  shows "a = b"
proof -
  from assms(1) have "showNat n = a" by (auto simp add: arrayIndex_def split: if_splits)
  moreover from assms(2) have "showNat n = b" by (auto simp add: arrayIndex_def split: if_splits)
  ultimately show ?thesis by simp
qed

lemma insertIndexed_keys:
  "fst ` set (insertIndexed n k v ps) = insert k (fst ` set ps)"
  by (induction ps) (auto split: option.splits)

lemma insertIndexed_distinct:
  "k \<notin> fst ` set ps \<Longrightarrow> distinct (map fst ps) \<Longrightarrow> distinct (map fst (insertIndexed n k v ps))"
proof (induction ps)
  case Nil
  then show ?case by simp
next
  case (Cons p ps)
  then have ih: "distinct (map fst (insertIndexed n k v ps))" by simp
  from Cons.prems have "fst p \<notin> fst ` set (insertIndexed n k v ps)"
    unfolding insertIndexed_keys by auto
  with ih Cons.prems show ?case by (auto split: option.splits)
qed


lemma insertIndexed_sorted:
  assumes "arrayIndex k = Some n" and "k \<notin> fst ` set ps"
    and "sorted_wrt keyBefore (map fst ps)"
  shows "sorted_wrt keyBefore (map fst (insertIndexed n k v ps))"
  using assms(2,3)
proof (induction ps)
  case Nil
  then show ?case by simp
next
  case (Cons p ps)
  from Cons.prems have ne: "fst p \<noteq> k" and notin: "k \<notin> fst ` set ps"
    and sorted: "sorted_wrt keyBefore (map fst ps)"
    and before: "\<forall>x \<in> fst ` set ps. keyBefore (fst p) x"
    by auto
  have ih: "sorted_wrt keyBefore (map fst (insertIndexed n k v ps))"
    using Cons.IH[OF notin sorted] .
  show ?case
  proof (cases "arrayIndex (fst p)")
    case None
    with before have "\<forall>x \<in> fst ` set ps. arrayIndex x = None"
      by (simp add: keyBefore_def)
    with None assms(1) have "\<forall>x \<in> fst ` set (p # ps). keyBefore k x"
      by (simp add: keyBefore_def)
    with None Cons.prems(2) show ?thesis by simp
  next
    case (Some m)
    show ?thesis
    proof (cases "m < n")
      case True
      with Some assms(1) have "keyBefore (fst p) k" by (simp add: keyBefore_def)
      with before have "\<forall>x \<in> fst ` set (insertIndexed n k v ps). keyBefore (fst p) x"
        unfolding insertIndexed_keys by simp
      with ih Some True show ?thesis by simp
    next
      case False
      from Some assms(1) ne have "m \<noteq> n" using arrayIndex_inject by blast
      with False have lt: "n < m" by simp
      have "keyBefore k x" if "x \<in> fst ` set (p # ps)" for x
      proof (cases "x = fst p")
        case True
        with Some assms(1) lt show ?thesis by (simp add: keyBefore_def)
      next
        case False
        with that before have "keyBefore (fst p) x" by auto
        with Some assms(1) lt show ?thesis
          by (cases "arrayIndex x") (simp_all add: keyBefore_def)
      qed
      then have "\<forall>x \<in> fst ` set (p # ps). keyBefore k x" by blast
      with Some False Cons.prems(2) show ?thesis by simp
    qed
  qed
qed

lemma insertIndexed_others:
  "arrayIndex k \<noteq> None \<Longrightarrow>
   filter (\<lambda>x. arrayIndex x = None) (map fst (insertIndexed n k v ps))
     = filter (\<lambda>x. arrayIndex x = None) (map fst ps)"
  by (induction ps) (auto split: option.splits)

lemma replace_keys:
  "map fst (map (\<lambda>p. if fst p = k then (k, v) else p) ps) = map fst ps"
  by (induction ps) auto


lemma defineProp_keys: "fst ` set (defineProp k v ps) = insert k (fst ` set ps)"
proof (cases "k \<in> fst ` set ps")
  case True
  have "fst ` set (map (\<lambda>p. if fst p = k then (k, v) else p) ps) = fst ` set ps"
    using replace_keys[of k v ps] by (metis set_map)
  with True show ?thesis by (auto simp add: defineProp_def)
next
  case False
  then show ?thesis
    by (cases "arrayIndex k") (simp_all add: defineProp_def insertIndexed_keys)
qed

lemma defineProp_distinct:
  assumes "distinct (map fst ps)"
  shows "distinct (map fst (defineProp k v ps))"
proof (cases "k \<in> fst ` set ps")
  case True
  with assms show ?thesis by (simp only: defineProp_def if_True replace_keys)
next
  case False
  with assms show ?thesis
    by (cases "arrayIndex k") (simp_all add: defineProp_def insertIndexed_distinct)
qed


lemma defineProp_sorted:
  assumes "sorted_wrt keyBefore (map fst ps)"
  shows "sorted_wrt keyBefore (map fst (defineProp k v ps))"
proof (cases "k \<in> fst ` set ps")
  case True
  with assms show ?thesis by (simp only: defineProp_def if_True replace_keys)
next
  case False
  show ?thesis
  proof (cases "arrayIndex k")
    case None
    then have "\<forall>x \<in> fst ` set ps. keyBefore x k"
      by (simp add: keyBefore_def split: option.splits)
    with assms False None show ?thesis
      by (simp add: defineProp_def sorted_wrt_append)
  next
    case (Some n)
    with False insertIndexed_sorted[OF Some False assms, of v] show ?thesis
      by (simp add: defineProp_def)
  qed
qed

lemma defineProp_others:
  "filter (\<lambda>x. arrayIndex x = None) (map fst (defineProp k v ps))
     = filter (\<lambda>x. arrayIndex x = None) (map fst ps)
       @ (if k \<notin> fst ` set ps \<and> arrayIndex k = None then [k] else [])"
proof (cases "k \<in> fst ` set ps")
  case True
  then show ?thesis by (simp only: defineProp_def if_True replace_keys) simp
next
  case False
  then show ?thesis
    by (cases "arrayIndex k") (simp_all add: defineProp_def insertIndexed_others)
qed



lemma foldl_defineProp_keys:
  "fst ` set (foldl (\<lambda>obj key. defineProp key (f key) obj) acc ks) = fst ` set acc \<union> set ks"
  by (induction ks arbitrary: acc) (auto simp add: defineProp_keys)



section \<open>The dependencies of \<open>package.json\<close>\<close>










text \<open>A key \<open>__proto__\<close> is lost, since setting it creates no property.\<close>

lemma sortByKeys_proto:
  "sortByKeys (JObj [(''b'', JStr ''1''), (''__proto__'', JStr ''2'')]) = JObj [(''b'', JStr ''1'')]"
  by code_simp

lemma foldl_setProp_others:
  "foldl (\<lambda>obj key. setProp key (f key) obj) acc ks
     = foldl (\<lambda>obj key. defineProp key (f key) obj) acc (filter (\<lambda>k. k \<noteq> ''__proto__'') ks)"
  by (induction ks arbitrary: acc) (simp_all add: setProp_def)

lemma sortByKeys_keys:
  "\<exists>d'. sortByKeys (JObj d) = JObj d' \<and> fst ` set d' = fst ` set d - {''__proto__''}"
proof -
  let ?d' = "foldl (\<lambda>obj key. defineProp key (the (map_of d key)) obj) []
               (filter (\<lambda>k. k \<noteq> ''__proto__'') (sort (map fst d)))"
  have "sortByKeys (JObj d) = JObj ?d'"
    by (simp add: sortByKeys_def ownEntries_def foldl_setProp_others)
  moreover have "fst ` set ?d' = fst ` set d - {''__proto__''}"
    unfolding foldl_defineProp_keys by auto
  ultimately show ?thesis by blast
qed

section \<open>The merge method \<open>json\<close>\<close>






section \<open>Loading the templates: when it fails\<close>

lemma those_Some_iff: "(\<exists>ys. those xs = Some ys) \<longleftrightarrow> None \<notin> set xs"
proof (induction xs)
  case Nil
  then show ?case by simp
next
  case (Cons x xs)
  then show ?case by (cases x; cases "those xs") auto
qed

lemma readVariantFiles_iff:
  "(\<exists>fs. readVariantFiles e label d paths = Inr fs)
     \<longleftrightarrow> (\<forall>path \<in> set paths. existsSync e (pathJoin e d path)
                                \<and> readFile e (pathJoin e d path) \<noteq> None)"
proof (cases "find (\<lambda>path. \<not> existsSync e (pathJoin e d path)) paths")
  case (Some path)
  then have "path \<in> set paths" and "\<not> existsSync e (pathJoin e d path)"
    by (auto simp add: find_Some_iff)
  with Some show ?thesis by (auto simp add: readVariantFiles_def)
next
  case None
  then have ex: "\<forall>path \<in> set paths. existsSync e (pathJoin e d path)"
    by (simp add: find_None_iff)
  have "(\<exists>fs. readVariantFiles e label d paths = Inr fs)
          \<longleftrightarrow> (\<exists>texts. those (map (\<lambda>path. readFile e (pathJoin e d path)) paths) = Some texts)"
    using None
    by (cases "those (map (\<lambda>path. readFile e (pathJoin e d path)) paths)")
       (simp_all add: readVariantFiles_def)
  also have "\<dots> \<longleftrightarrow> (\<forall>path \<in> set paths. readFile e (pathJoin e d path) \<noteq> None)"
    unfolding those_Some_iff by force
  finally show ?thesis using ex by blast
qed

lemma loadVariants_iff:
  "(\<exists>r. loadVariants e ident tdir used vf vs = Inr r)
     \<longleftrightarrow> distinct (map (\<lambda>p. displayName (snd p)) vs)
         \<and> set (map (\<lambda>p. displayName (snd p)) vs) \<inter> set used = {}
         \<and> (\<forall>p \<in> set vs. variantLoads e tdir (fst p) (snd p))"
proof (induction vs arbitrary: used vf)
  case Nil
  then show ?case by simp
next
  case (Cons a vs)
  obtain variantId v where a: "a = (variantId, v)" by (cases a)
  let ?label = "''variant `'' @ variantId @ ''` for template `'' @ ident @ ''`''"
  let ?d = "pathJoin e tdir variantId"
  show ?case
  proof (cases "displayName v \<in> set used")
    case True
    then show ?thesis by (auto simp add: a Let_def)
  next
    case fresh: False
    show ?thesis
    proof (cases "existsSync e ?d \<and> statIsDirectory e ?d = Some True")
      case False
      then have 1: "\<not> variantLoads e tdir variantId v" by (auto simp add: variantLoads_def Let_def)
      from False fresh have "\<not> (\<exists>r. loadVariants e ident tdir used vf (a # vs) = Inr r)"
        by (cases "statIsDirectory e ?d"; cases "the (statIsDirectory e ?d)")
           (auto simp add: a Let_def)
      with 1 show ?thesis by (auto simp add: a)
    next
      case dirOk: True
      show ?thesis
      proof (cases "readVariantFiles e ?label ?d (files v)")
        case (Inl err)
        then have "\<not> (\<exists>fs. readVariantFiles e ?label ?d (files v) = Inr fs)" by simp
        then have 1: "\<not> variantLoads e tdir variantId v"
          unfolding readVariantFiles_iff by (auto simp add: variantLoads_def Let_def)
        from Inl fresh dirOk have "\<not> (\<exists>r. loadVariants e ident tdir used vf (a # vs) = Inr r)"
          by (auto simp add: a Let_def)
        with 1 show ?thesis by (auto simp add: a)
      next
        case (Inr fs)
        then have "\<exists>fs. readVariantFiles e ?label ?d (files v) = Inr fs" by blast
        with dirOk have 1: "variantLoads e tdir variantId v"
          unfolding readVariantFiles_iff by (auto simp add: variantLoads_def Let_def)
        from Inr fresh dirOk
        have "loadVariants e ident tdir used vf (a # vs)
                = loadVariants e ident tdir (displayName v # used) (mapSet variantId fs vf) vs"
          by (auto simp add: a Let_def)
        then have "(\<exists>r. loadVariants e ident tdir used vf (a # vs) = Inr r)
          \<longleftrightarrow> distinct (map (\<lambda>p. displayName (snd p)) vs)
         \<and> set (map (\<lambda>p. displayName (snd p)) vs) \<inter> set (displayName v # used) = {}
         \<and> (\<forall>p \<in> set vs. variantLoads e tdir (fst p) (snd p))"
          by (simp only: Cons.IH)
        with 1 fresh show ?thesis by (auto simp add: a)
      qed
    qed
  qed
qed

lemma readTemplateConfig_iff:
  "readTemplateConfig e dir ident = Inr templateConfig
     \<longleftrightarrow> definitionOf e dir ident = Some templateConfig \<and> templateSchema templateConfig"
  by (auto simp add: readTemplateConfig_def definitionOf_def Let_def
           split: option.splits bool.splits if_splits)


lemma templateLoads_iff:
  assumes "definitionOf e dir ident = Some templateConfig"
  shows "templateLoads e dir ident
     \<longleftrightarrow> templateSchema templateConfig
         \<and> (\<exists>vf. loadVariants e ident (pathResolve e dir ident) [] []
                     (configVariants templateConfig) = Inr vf)"
  unfolding loadVariants_iff using assms by (simp add: templateLoads_def)

lemma readTemplates_loop_iff:
  "(\<exists>r. readTemplates_loop e dir used result ids = Inr r)
     \<longleftrightarrow> (\<forall>ident \<in> set ids. templateLoads e dir ident)
         \<and> distinct (map (\<lambda>ident. configDisplayName (the (definitionOf e dir ident))) ids)
         \<and> set (map (\<lambda>ident. configDisplayName (the (definitionOf e dir ident))) ids)
               \<inter> set used = {}"
proof (induction ids arbitrary: used result)
  case Nil
  then show ?case by simp
next
  case (Cons i ids)
  let ?name = "\<lambda>ident. configDisplayName (the (definitionOf e dir ident))"
  show ?case
  proof (cases "readTemplateConfig e dir i")
    case (Inl err)
    have "\<not> templateLoads e dir i"
    proof
      assume l: "templateLoads e dir i"
      then obtain cfg where "definitionOf e dir i = Some cfg" and "templateSchema cfg"
        by (auto simp add: templateLoads_def split: option.splits)
      then have "readTemplateConfig e dir i = Inr cfg" by (simp add: readTemplateConfig_iff)
      with Inl show False by simp
    qed
    with Inl show ?thesis by simp
  next
    case (Inr cfg)
    then have def: "definitionOf e dir i = Some cfg" and schema: "templateSchema cfg"
      by (simp_all add: readTemplateConfig_iff)
    then have name: "?name i = configDisplayName cfg" by simp
    show ?thesis
    proof (cases "configDisplayName cfg \<in> set used")
      case True
      with Inr name show ?thesis by auto
    next
      case fresh: False
      show ?thesis
      proof (cases "loadVariants e i (pathResolve e dir i) [] [] (configVariants cfg)")
        case (Inl err)
        then have "\<not> templateLoads e dir i"
          unfolding templateLoads_iff[OF def] by simp
        with Inr Inl fresh show ?thesis by simp
      next
        case vf: (Inr vf)
        then have loads: "templateLoads e dir i"
          unfolding templateLoads_iff[OF def] using schema by simp
        from Inr vf fresh
        have "readTemplates_loop e dir used result (i # ids)
           = readTemplates_loop e dir (configDisplayName cfg # used)
               (mapSet i (asLoadedTemplate cfg i (pathResolve e dir i) (fromEntries vf)) result)
               ids"
          by simp
        then have "(\<exists>r. readTemplates_loop e dir used result (i # ids) = Inr r)
          \<longleftrightarrow> (\<forall>ident \<in> set ids. templateLoads e dir ident)
         \<and> distinct (map ?name ids)
         \<and> set (map ?name ids) \<inter> set (configDisplayName cfg # used) = {}"
          by (simp only: Cons.IH)
        with loads fresh name show ?thesis by auto
      qed
    qed
  qed
qed

lemma readTemplates_succeeds_iff:
  "(\<exists>templates. readTemplates e dir = Inr templates) \<longleftrightarrow> templatesLoad e dir"
proof (cases "existsSync e dir")
  case False
  then show ?thesis by (simp add: readTemplates_def templatesLoad_def)
next
  case True
  show ?thesis
  proof (cases "readdir e dir")
    case None
    with True show ?thesis by (simp add: readTemplates_def templatesLoad_def)
  next
    case (Some ids)
    have "(\<exists>templates. readTemplates e dir = Inr templates)
            \<longleftrightarrow> (\<exists>r. readTemplates_loop e dir [] [] ids = Inr r)"
      using True Some
      by (cases "readTemplates_loop e dir [] [] ids") (simp_all add: readTemplates_def)
    then show ?thesis
      unfolding readTemplates_loop_iff using True Some by (simp add: templatesLoad_def)
  qed
qed

text \<open>
  Claim C4, amended. Loading fails exactly when the templates do not load in the sense
  of \<open>templatesLoad\<close>: the templates directory is missing or cannot be listed, an
  entry of it is no directory, a \<open>template.json\<close> is missing, cannot be read or does
  not parse, a definition fails the schema, two templates or two variants of one
  template share a display name, a variant's directory is missing or is no directory,
  or a declared file is absent or cannot be read. In particular loading fails whenever
  a definition fails the schema or a declared file of a variant is absent; it succeeds
  in every case that remains.
\<close>

theorem readTemplates_fails_iff:
  "(isl (readTemplates e dir) \<longleftrightarrow> \<not> templatesLoad e dir)
   \<and> (\<forall>ids ident templateConfig.
         existsSync e dir \<and> readdir e dir = Some ids \<and> ident \<in> set ids
         \<and> definitionOf e dir ident = Some templateConfig
         \<and> (\<not> templateSchema templateConfig
              \<or> (\<exists>p \<in> set (configVariants templateConfig). \<exists>path \<in> set (files (snd p)).
                    \<not> existsSync e
                        (pathJoin e (pathJoin e (pathResolve e dir ident) (fst p)) path)))
         \<longrightarrow> isl (readTemplates e dir))"
proof
  have "isl (readTemplates e dir) \<longleftrightarrow> \<not> (\<exists>templates. readTemplates e dir = Inr templates)"
    by (cases "readTemplates e dir") simp_all
  then show iff: "isl (readTemplates e dir) \<longleftrightarrow> \<not> templatesLoad e dir"
    by (simp only: readTemplates_succeeds_iff)
  show "\<forall>ids ident templateConfig.
         existsSync e dir \<and> readdir e dir = Some ids \<and> ident \<in> set ids
         \<and> definitionOf e dir ident = Some templateConfig
         \<and> (\<not> templateSchema templateConfig
              \<or> (\<exists>p \<in> set (configVariants templateConfig). \<exists>path \<in> set (files (snd p)).
                    \<not> existsSync e
                        (pathJoin e (pathJoin e (pathResolve e dir ident) (fst p)) path)))
         \<longrightarrow> isl (readTemplates e dir)"
  proof (intro allI impI)
    fix ids ident templateConfig
    assume h: "existsSync e dir \<and> readdir e dir = Some ids \<and> ident \<in> set ids
         \<and> definitionOf e dir ident = Some templateConfig
         \<and> (\<not> templateSchema templateConfig
              \<or> (\<exists>p \<in> set (configVariants templateConfig). \<exists>path \<in> set (files (snd p)).
                    \<not> existsSync e
                        (pathJoin e (pathJoin e (pathResolve e dir ident) (fst p)) path)))"
    then have "\<not> templateLoads e dir ident"
      by (auto simp add: templateLoads_def variantLoads_def Let_def)
    with h have "\<not> templatesLoad e dir" by (auto simp add: templatesLoad_def)
    with iff show "isl (readTemplates e dir)" by simp
  qed
qed

theorem readTemplates_fails_iff_witness:
  "readTemplates (exampleEnv exampleTemplateConfig) ''/t'' = Inr [(''lib'', exampleTemplate)]
   \<and> templatesLoad (exampleEnv exampleTemplateConfig) ''/t''
   \<and> readTemplates (exampleEnv exampleMissingConfig) ''/t''
       = Inl (AssertionError
                ''Invalid variant `docs` for template `lib`: the file GUIDE.md doesn't exist'')
   \<and> \<not> templatesLoad (exampleEnv exampleMissingConfig) ''/t''
   \<and> isl (readTemplates (exampleEnv exampleInvalidConfig) ''/t'')"
proof -
  have 1: "readTemplates (exampleEnv exampleTemplateConfig) ''/t'' = Inr [(''lib'', exampleTemplate)]"
    by code_simp
  with readTemplates_fails_iff[of "exampleEnv exampleTemplateConfig" "''/t''", THEN conjunct1]
  have 2: "templatesLoad (exampleEnv exampleTemplateConfig) ''/t''" by simp
  have 3: "readTemplates (exampleEnv exampleMissingConfig) ''/t''
       = Inl (AssertionError
                ''Invalid variant `docs` for template `lib`: the file GUIDE.md doesn't exist'')"
    by code_simp
  with readTemplates_fails_iff[of "exampleEnv exampleMissingConfig" "''/t''", THEN conjunct1]
  have 4: "\<not> templatesLoad (exampleEnv exampleMissingConfig) ''/t''" by simp
  let ?e = "exampleEnv exampleInvalidConfig"
  have a: "existsSync ?e ''/t''" by code_simp
  have b: "readdir ?e ''/t'' = Some [''lib'']" by code_simp
  have c: "definitionOf ?e ''/t'' ''lib'' = Some exampleInvalidConfig" by code_simp
  have d: "\<not> templateSchema exampleInvalidConfig" by code_simp
  from readTemplates_fails_iff[of ?e "''/t''", THEN conjunct2, THEN spec, THEN spec, THEN spec,
         of "[''lib'']" "''lib''" exampleInvalidConfig] a b c d
  have 5: "isl (readTemplates ?e ''/t'')" by simp
  from 1 2 3 4 5 show ?thesis by blast
qed

text \<open>
  The claim as stated fails: in the example below the definition passes the schema
  and every declared file is on disk, and loading fails all the same, since two
  variants share a display name.
\<close>

theorem readTemplates_duplicate_display_name:
  "readTemplates (exampleEnv exampleDuplicateConfig) ''/t''
     = Inl (AssertionError
              ''Invalid variant `base` for template `lib`: the display name is already being used'')
   \<and> definitionOf (exampleEnv exampleDuplicateConfig) ''/t'' ''lib'' = Some exampleDuplicateConfig
   \<and> templateSchema exampleDuplicateConfig
   \<and> list_all (\<lambda>p. list_all (\<lambda>path. existsSync (exampleEnv exampleDuplicateConfig)
                                  (exampleJoin (exampleJoin ''/t/lib'' (fst p)) path))
                       (files (snd p)))
        (configVariants exampleDuplicateConfig)"
  by code_simp


section \<open>The catalog of a loaded template\<close>

text \<open>
  What \<^verbatim>\<open>readTemplates\<close> guarantees about the templates it returns: the catalog
  \<^verbatim>\<open>variantFiles\<close> holds each variant once, each variant holds each of its paths once, and the
  catalog follows the variants of \<^verbatim>\<open>template.json\<close> in their enumeration order.
\<close>

lemma insertIndexed_entries: "set (insertIndexed n k v ps) = insert (k, v) (set ps)"
  by (induction ps) (auto split: option.splits)

lemma defineProp_entries: "set (defineProp k v ps) \<subseteq> insert (k, v) (set ps)"
  by (cases "arrayIndex k") (auto simp add: defineProp_def insertIndexed_entries)

lemma fromEntries_loop_entries:
  "set (foldl (\<lambda>obj e. defineProp (fst e) (snd e) obj) acc es) \<subseteq> set acc \<union> set es"
proof (induction es arbitrary: acc)
  case Nil
  then show ?case by simp
next
  case (Cons a es)
  have "set (foldl (\<lambda>obj e. defineProp (fst e) (snd e) obj) (defineProp (fst a) (snd a) acc) es)
          \<subseteq> set (defineProp (fst a) (snd a) acc) \<union> set es"
    by (rule Cons.IH)
  also have "\<dots> \<subseteq> insert a (set acc) \<union> set es"
    using defineProp_entries[of "fst a" "snd a" acc] by auto
  finally show ?case by auto
qed

lemma fromEntries_entries: "set (fromEntries es) \<subseteq> set es"
  using fromEntries_loop_entries[of "[]" es] by (simp add: fromEntries_def)

lemma fromEntries_loop_distinct:
  "distinct (map fst acc) \<Longrightarrow>
   distinct (map fst (foldl (\<lambda>obj e. defineProp (fst e) (snd e) obj) acc es))"
  by (induction es arbitrary: acc) (simp_all add: defineProp_distinct)

lemma fromEntries_distinct: "distinct (map fst (fromEntries es))"
  by (simp add: fromEntries_def fromEntries_loop_distinct)

lemma insertIndexed_last:
  "\<forall>p \<in> set ps. keyBefore (fst p) k \<Longrightarrow> arrayIndex k = Some n \<Longrightarrow>
   insertIndexed n k v ps = ps @ [(k, v)]"
  by (induction ps) (auto simp add: keyBefore_def split: option.splits)

lemma defineProp_last:
  assumes "k \<notin> fst ` set ps" and "\<forall>p \<in> set ps. keyBefore (fst p) k"
  shows "defineProp k v ps = ps @ [(k, v)]"
  using assms by (cases "arrayIndex k") (simp_all add: defineProp_def insertIndexed_last)

lemma fromEntries_loop_enumeration:
  assumes "distinct (map fst (acc @ es))" and "sorted_wrt keyBefore (map fst (acc @ es))"
  shows "foldl (\<lambda>obj e. defineProp (fst e) (snd e) obj) acc es = acc @ es"
  using assms
proof (induction es arbitrary: acc)
  case Nil
  then show ?case by simp
next
  case (Cons a es)
  from Cons.prems have "fst a \<notin> fst ` set acc" by auto
  moreover from Cons.prems(2) have "\<forall>p \<in> set acc. keyBefore (fst p) (fst a)"
    by (auto simp add: sorted_wrt_append)
  ultimately have d: "defineProp (fst a) (snd a) acc = acc @ [a]"
    by (simp add: defineProp_last)
  from Cons.prems have "distinct (map fst ((acc @ [a]) @ es))"
    and "sorted_wrt keyBefore (map fst ((acc @ [a]) @ es))"
    by simp_all
  then have "foldl (\<lambda>obj e. defineProp (fst e) (snd e) obj) (acc @ [a]) es = (acc @ [a]) @ es"
    by (rule Cons.IH)
  with d show ?case by simp
qed

lemma fromEntries_enumeration:
  "distinct (map fst es) \<Longrightarrow> sorted_wrt keyBefore (map fst es) \<Longrightarrow> fromEntries es = es"
  using fromEntries_loop_enumeration[of "[]" es] by (simp add: fromEntries_def)

lemma mapSet_entries: "set (mapSet k v m) \<subseteq> insert (k, v) (set m)"
  by (auto simp add: mapSet_def)

lemma mapSet_fresh: "k \<notin> fst ` set m \<Longrightarrow> mapSet k v m = m @ [(k, v)]"
  by (simp add: mapSet_def)

lemma readVariantFiles_distinct:
  "readVariantFiles e label d paths = Inr fs \<Longrightarrow> distinct (map fst fs)"
  by (auto simp add: readVariantFiles_def fromEntries_distinct split: option.splits)

lemma loadVariants_entries:
  assumes "loadVariants e ident tdir used vf vs = Inr r"
    and "\<forall>a \<in> set vf. distinct (map fst (snd a))"
  shows "\<forall>a \<in> set r. distinct (map fst (snd a))"
  using assms
proof (induction vs arbitrary: used vf)
  case Nil
  then show ?case by simp
next
  case (Cons a vs)
  obtain variantId v where a: "a = (variantId, v)" by (cases a)
  let ?label = "''variant `'' @ variantId @ ''` for template `'' @ ident @ ''`''"
  let ?d = "pathJoin e tdir variantId"
  from Cons.prems(1) a obtain fs where fs: "readVariantFiles e ?label ?d (files v) = Inr fs"
    and rest: "loadVariants e ident tdir (displayName v # used) (mapSet variantId fs vf) vs = Inr r"
    by (auto simp add: Let_def split: if_splits option.splits bool.splits sum.splits)
  from fs have "distinct (map fst fs)" by (rule readVariantFiles_distinct)
  with Cons.prems(2) have "\<forall>a \<in> set (mapSet variantId fs vf). distinct (map fst (snd a))"
    using mapSet_entries[of variantId fs vf] by auto
  with rest show ?case by (rule Cons.IH)
qed

lemma loadVariants_keys:
  assumes "loadVariants e ident tdir used vf vs = Inr r"
    and "distinct (map fst vf @ map fst vs)"
  shows "map fst r = map fst vf @ map fst vs"
  using assms
proof (induction vs arbitrary: used vf)
  case Nil
  then show ?case by simp
next
  case (Cons a vs)
  obtain variantId v where a: "a = (variantId, v)" by (cases a)
  let ?label = "''variant `'' @ variantId @ ''` for template `'' @ ident @ ''`''"
  let ?d = "pathJoin e tdir variantId"
  from Cons.prems(1) a obtain fs where
    rest: "loadVariants e ident tdir (displayName v # used) (mapSet variantId fs vf) vs = Inr r"
    by (auto simp add: Let_def split: if_splits option.splits bool.splits sum.splits)
  from Cons.prems(2) a have "variantId \<notin> fst ` set vf" by auto
  then have m: "mapSet variantId fs vf = vf @ [(variantId, fs)]" by (rule mapSet_fresh)
  from Cons.prems(2) a have "distinct (map fst (vf @ [(variantId, fs)]) @ map fst vs)" by simp
  with rest[unfolded m] have "map fst r = map fst (vf @ [(variantId, fs)]) @ map fst vs"
    by (rule Cons.IH)
  with a show ?case by simp
qed


lemma loaded_catalog:
  assumes "loadVariants e ident tdir [] [] (configVariants templateConfig) = Inr vf"
  shows "distinct (map fst (variantFiles (asLoadedTemplate templateConfig ident tdir (fromEntries vf))))
     \<and> (\<forall>a \<in> set (variantFiles (asLoadedTemplate templateConfig ident tdir (fromEntries vf))).
           distinct (map fst (snd a)))
     \<and> (distinct (map fst (variants (asLoadedTemplate templateConfig ident tdir (fromEntries vf))))
          \<and> sorted_wrt keyBefore
               (map fst (variants (asLoadedTemplate templateConfig ident tdir (fromEntries vf))))
         \<longrightarrow> map fst (variantFiles (asLoadedTemplate templateConfig ident tdir (fromEntries vf)))
               = map fst (variants (asLoadedTemplate templateConfig ident tdir (fromEntries vf))))"
proof -
  let ?t = "asLoadedTemplate templateConfig ident tdir (fromEntries vf)"
  have vfs: "variantFiles ?t = fromEntries vf" and vs: "variants ?t = configVariants templateConfig"
    by (simp_all add: asLoadedTemplate_def)
  have 1: "distinct (map fst (variantFiles ?t))" unfolding vfs by (rule fromEntries_distinct)
  from loadVariants_entries[OF assms] have "\<forall>a \<in> set vf. distinct (map fst (snd a))" by simp
  with fromEntries_entries[of vf] have 2: "\<forall>a \<in> set (variantFiles ?t). distinct (map fst (snd a))"
    unfolding vfs by blast
  have 3: "map fst (variantFiles ?t) = map fst (variants ?t)"
    if "distinct (map fst (variants ?t)) \<and> sorted_wrt keyBefore (map fst (variants ?t))"
  proof -
    from that have d: "distinct (map fst (configVariants templateConfig))"
      and s: "sorted_wrt keyBefore (map fst (configVariants templateConfig))"
      unfolding vs by simp_all
    from loadVariants_keys[OF assms] d
    have k: "map fst vf = map fst (configVariants templateConfig)" by simp
    with d s have "fromEntries vf = vf" by (intro fromEntries_enumeration) simp_all
    with k show ?thesis unfolding vfs vs by simp
  qed
  from 1 2 3 show ?thesis by blast
qed

lemma readTemplates_loop_entries:
  assumes "readTemplates_loop e dir used result ids = Inr r" and "\<forall>a \<in> set result. P (snd a)"
    and "\<And>ident templateConfig vf.
           loadVariants e ident (pathResolve e dir ident) [] [] (configVariants templateConfig) = Inr vf
           \<Longrightarrow> P (asLoadedTemplate templateConfig ident (pathResolve e dir ident) (fromEntries vf))"
  shows "\<forall>a \<in> set r. P (snd a)"
  using assms(1,2)
proof (induction ids arbitrary: used result)
  case Nil
  then show ?case by simp
next
  case (Cons i ids)
  from Cons.prems(1) obtain cfg vf where
    vf: "loadVariants e i (pathResolve e dir i) [] [] (configVariants cfg) = Inr vf"
    and rest: "readTemplates_loop e dir (configDisplayName cfg # used)
                 (mapSet i (asLoadedTemplate cfg i (pathResolve e dir i) (fromEntries vf)) result)
                 ids = Inr r"
    by (auto split: sum.splits if_splits)
  from assms(3)[OF vf] Cons.prems(2)
  have "\<forall>a \<in> set (mapSet i (asLoadedTemplate cfg i (pathResolve e dir i) (fromEntries vf)) result).
          P (snd a)"
    using mapSet_entries[of i "asLoadedTemplate cfg i (pathResolve e dir i) (fromEntries vf)" result]
    by auto
  with rest show ?case by (rule Cons.IH)
qed

lemma readTemplates_catalog:
  assumes "readTemplates e dir = Inr templates" and "(ident, t) \<in> set templates"
  shows "distinct (map fst (variantFiles t))
     \<and> (\<forall>a \<in> set (variantFiles t). distinct (map fst (snd a)))
     \<and> (distinct (map fst (variants t)) \<and> sorted_wrt keyBefore (map fst (variants t))
         \<longrightarrow> map fst (variantFiles t) = map fst (variants t))"
proof -
  let ?P = "\<lambda>t. distinct (map fst (variantFiles t))
     \<and> (\<forall>a \<in> set (variantFiles t). distinct (map fst (snd a)))
     \<and> (distinct (map fst (variants t)) \<and> sorted_wrt keyBefore (map fst (variants t))
         \<longrightarrow> map fst (variantFiles t) = map fst (variants t))"
  from assms(1) obtain ids r where r: "readTemplates_loop e dir [] [] ids = Inr r"
    and ts: "templates = fromEntries r"
    by (auto simp add: readTemplates_def split: if_splits option.splits sum.splits)
  have "\<forall>a \<in> set r. ?P (snd a)"
  proof (rule readTemplates_loop_entries[OF r])
    show "\<forall>a \<in> set []. ?P (snd a)" by simp
  next
    fix i cfg vf
    assume "loadVariants e i (pathResolve e dir i) [] [] (configVariants cfg) = Inr vf"
    then show "?P (asLoadedTemplate cfg i (pathResolve e dir i) (fromEntries vf))"
      by (rule loaded_catalog)
  qed
  moreover from assms(2) ts have "(ident, t) \<in> set r" using fromEntries_entries[of r] by auto
  ultimately show ?thesis by force
qed

text \<open>
  The order of the catalog against the order of the definition. An object lists the
  keys that are array indices first, in ascending numeric order, and the other keys in
  the order of their creation: the catalog holds the declared variants, the IDs that
  are no array indices in the order of their declaration.
\<close>

lemma fromEntries_loop_sorted:
  "sorted_wrt keyBefore (map fst acc) \<Longrightarrow>
   sorted_wrt keyBefore (map fst (foldl (\<lambda>obj e. defineProp (fst e) (snd e) obj) acc es))"
  by (induction es arbitrary: acc) (simp_all add: defineProp_sorted)

lemma fromEntries_loop_keys:
  "fst ` set (foldl (\<lambda>obj e. defineProp (fst e) (snd e) obj) acc es)
     = fst ` set acc \<union> fst ` set es"
  by (induction es arbitrary: acc) (auto simp add: defineProp_keys)

lemma fromEntries_loop_others:
  assumes "distinct (map fst es)" and "fst ` set es \<inter> fst ` set acc = {}"
  shows "filter (\<lambda>x. arrayIndex x = None)
           (map fst (foldl (\<lambda>obj e. defineProp (fst e) (snd e) obj) acc es))
     = filter (\<lambda>x. arrayIndex x = None) (map fst acc)
       @ filter (\<lambda>x. arrayIndex x = None) (map fst es)"
  using assms
proof (induction es arbitrary: acc)
  case Nil
  then show ?case by simp
next
  case (Cons a es)
  from Cons.prems have fresh: "fst a \<notin> fst ` set acc" by auto
  from Cons.prems have "fst ` set es \<inter> fst ` set (defineProp (fst a) (snd a) acc) = {}"
    unfolding defineProp_keys by auto
  with Cons.prems
  have "filter (\<lambda>x. arrayIndex x = None)
           (map fst (foldl (\<lambda>obj e. defineProp (fst e) (snd e) obj)
                       (defineProp (fst a) (snd a) acc) es))
     = filter (\<lambda>x. arrayIndex x = None) (map fst (defineProp (fst a) (snd a) acc))
       @ filter (\<lambda>x. arrayIndex x = None) (map fst es)"
    by (intro Cons.IH) simp_all
  with fresh show ?case by (simp add: defineProp_others)
qed

lemma loaded_catalog_order:
  assumes "loadVariants e ident tdir [] [] (configVariants templateConfig) = Inr vf"
    and "distinct (map fst (variants (asLoadedTemplate templateConfig ident tdir (fromEntries vf))))"
  shows "fst ` set (variantFiles (asLoadedTemplate templateConfig ident tdir (fromEntries vf)))
       = fst ` set (variants (asLoadedTemplate templateConfig ident tdir (fromEntries vf)))
     \<and> sorted_wrt keyBefore
         (map fst (variantFiles (asLoadedTemplate templateConfig ident tdir (fromEntries vf))))
     \<and> filter (\<lambda>k. arrayIndex k = None)
         (map fst (variantFiles (asLoadedTemplate templateConfig ident tdir (fromEntries vf))))
       = filter (\<lambda>k. arrayIndex k = None)
           (map fst (variants (asLoadedTemplate templateConfig ident tdir (fromEntries vf))))"
proof -
  let ?t = "asLoadedTemplate templateConfig ident tdir (fromEntries vf)"
  have vfs: "variantFiles ?t = fromEntries vf" and vs: "variants ?t = configVariants templateConfig"
    by (simp_all add: asLoadedTemplate_def)
  from assms(2) have d: "distinct (map fst (configVariants templateConfig))" unfolding vs .
  from loadVariants_keys[OF assms(1)] d
  have k: "map fst vf = map fst (configVariants templateConfig)" by simp
  have 1: "fst ` set (fromEntries vf) = fst ` set (configVariants templateConfig)"
    using fromEntries_loop_keys[of "[]" vf] k unfolding fromEntries_def
    by (metis (no_types, lifting) list.set(1) image_empty sup_bot.left_neutral set_map)
  have 2: "sorted_wrt keyBefore (map fst (fromEntries vf))"
    unfolding fromEntries_def by (rule fromEntries_loop_sorted) simp
  have "filter (\<lambda>x. arrayIndex x = None) (map fst (fromEntries vf))
          = filter (\<lambda>x. arrayIndex x = None) (map fst vf)"
    using fromEntries_loop_others[of vf "[]"] d k unfolding fromEntries_def by simp
  with k have 3: "filter (\<lambda>x. arrayIndex x = None) (map fst (fromEntries vf))
          = filter (\<lambda>x. arrayIndex x = None) (map fst (configVariants templateConfig))"
    by simp
  from 1 2 3 show ?thesis unfolding vfs vs by blast
qed

lemma readTemplates_catalog_order:
  assumes "readTemplates e dir = Inr templates" and "(ident, t) \<in> set templates"
    and "distinct (map fst (variants t))"
  shows "fst ` set (variantFiles t) = fst ` set (variants t)
     \<and> sorted_wrt keyBefore (map fst (variantFiles t))
     \<and> filter (\<lambda>k. arrayIndex k = None) (map fst (variantFiles t))
       = filter (\<lambda>k. arrayIndex k = None) (map fst (variants t))"
proof -
  let ?P = "\<lambda>t. distinct (map fst (variants t)) \<longrightarrow>
       fst ` set (variantFiles t) = fst ` set (variants t)
     \<and> sorted_wrt keyBefore (map fst (variantFiles t))
     \<and> filter (\<lambda>k. arrayIndex k = None) (map fst (variantFiles t))
       = filter (\<lambda>k. arrayIndex k = None) (map fst (variants t))"
  from assms(1) obtain ids r where r: "readTemplates_loop e dir [] [] ids = Inr r"
    and ts: "templates = fromEntries r"
    by (auto simp add: readTemplates_def split: if_splits option.splits sum.splits)
  have "\<forall>a \<in> set r. ?P (snd a)"
  proof (rule readTemplates_loop_entries[OF r])
    show "\<forall>a \<in> set []. ?P (snd a)" by simp
  next
    fix i cfg vf
    assume "loadVariants e i (pathResolve e dir i) [] [] (configVariants cfg) = Inr vf"
    then show "?P (asLoadedTemplate cfg i (pathResolve e dir i) (fromEntries vf))"
      using loaded_catalog_order by blast
  qed
  moreover from assms(2) ts have "(ident, t) \<in> set r" using fromEntries_entries[of r] by auto
  ultimately have "?P t" by force
  with assms(3) show ?thesis by blast
qed


end
